(* ===== verification/CodyPrelude.thy ===== *)
theory CodyPrelude
  imports Main "HOL-Library.Word"
begin

text \<open>
  Shared vocabulary of the development: bytes and their two numeric readings, the
  ways a C++ operation can fail to return a value, checked reads of a character
  vector, separator-joined lists, and the automation collections the component
  theories extend.
\<close>

unbundle bit_operations_syntax

named_theorems res_simps \<open>evaluation of the result monad\<close>
named_theorems buf_defs \<open>definitions of the MessageBuffer building operations\<close>

section \<open>Operations that may fail to return\<close>

text \<open>
  An operation of the library returns a value, or it stops in one of four ways:
  an access outside the valid range of a vector (undefined behaviour in C++), a
  failed \<open>Assert\<close> (\<open>internal.hh\<close>, which calls \<open>HCF\<close> and aborts), a read of a union
  member that is not the active one, or it never
  returns because a loop keeps waiting for the other side.
\<close>

datatype halt = OutOfRange | AssertFailure | WrongVariant | Diverges

type_synonym 'a res = "halt + 'a"

definition bind_res :: "'a res \<Rightarrow> ('a \<Rightarrow> 'b res) \<Rightarrow> 'b res" where
  "bind_res r k = (case r of Inl h \<Rightarrow> Inl h | Inr x \<Rightarrow> k x)"

lemma bind_res_simps [simp, res_simps]:
  "bind_res (Inl h) k = Inl h"
  "bind_res (Inr x) k = k x"
  by (simp_all add: bind_res_def)

lemma bind_res_eq_Inr:
  "bind_res r k = Inr y \<longleftrightarrow> (\<exists>x. r = Inr x \<and> k x = Inr y)"
  by (cases r) auto

lemma bind_res_assoc:
  "bind_res (bind_res r f) g = bind_res r (\<lambda>x. bind_res (f x) g)"
  by (cases r) auto

section \<open>Bytes\<close>

text \<open>
  A C++ \<open>char\<close> is a HOL \<open>char\<close>, that is eight bits. Comparisons in the code go
  through integer promotion, so they see \<open>uchar\<close> (an \<open>unsigned char\<close>) or
  \<open>char_val sc\<close>, where \<open>sc\<close> says whether plain \<open>char\<close> is signed on the platform.
\<close>

type_synonym bytes = "char list"

abbreviation NL :: char where "NL \<equiv> CHR 0x0A"
abbreviation TAB :: char where "TAB \<equiv> CHR 0x09"
abbreviation SPC :: char where "SPC \<equiv> CHR 0x20"
abbreviation APOS :: char where "APOS \<equiv> CHR 0x27"
abbreviation BSLASH :: char where "BSLASH \<equiv> CHR 0x5C"
abbreviation CONTINUE :: char where "CONTINUE \<equiv> CHR 0x3B"
abbreviation NUL :: char where "NUL \<equiv> CHR 0x00"

definition uchar :: "char \<Rightarrow> int" where
  "uchar c = int (of_char c)"

definition char_val :: "bool \<Rightarrow> char \<Rightarrow> int" where
  "char_val sc c = (if sc \<and> 128 \<le> uchar c then uchar c - 256 else uchar c)"

lemma uchar_range: "0 \<le> uchar c" "uchar c < 256"
  using nat_of_char_less_256 [of c] by (auto simp: uchar_def simp del: nat_of_char_less_256)

lemma uchar_inject [simp]: "uchar c = uchar d \<longleftrightarrow> c = d"
  by (simp add: uchar_def)

lemma uchar_char_of: "uchar (char_of n) = int (n mod 256)" for n :: nat
  by (simp add: uchar_def)

lemma uchar_literals [simp]:
  "uchar SPC = 32" "uchar CHR ''0'' = 48" "uchar CHR ''9'' = 57" "uchar CHR ''a'' = 97"
  "uchar CHR ''f'' = 102" "uchar NL = 10" "uchar TAB = 9" "uchar APOS = 39"
  "uchar BSLASH = 92" "uchar CONTINUE = 59" "uchar CHR ''n'' = 110" "uchar CHR ''t'' = 116"
  "uchar CHR ''_'' = 95"
  by (simp_all add: uchar_def)

lemma char_val_ascii [simp]: "uchar c < 128 \<Longrightarrow> char_val sc c = uchar c"
  by (simp add: char_val_def)

text \<open>A property of all bytes can be checked on the 256 values.\<close>

lemma all_chars: "(\<forall>c :: char. P c) \<longleftrightarrow> list_all P (map char_of [0..<256 :: nat])"
proof
  assume *: "list_all P (map char_of [0..<256 :: nat])"
  show "\<forall>c. P c"
  proof
    fix c :: char
    have "c = char_of (of_char c :: nat)" by simp
    moreover have "(of_char c :: nat) < 256" by (rule nat_of_char_less_256)
    ultimately have "c \<in> set (map char_of [0..<256 :: nat])"
      by (metis atLeastLessThan_iff imageI image_set le0 set_upt)
    with * show "P c" by (simp only: list_all_iff)
  qed
qed (simp add: list_all_iff)

section \<open>Character vectors\<close>

text \<open>
  \<open>rd\<close> is \<open>*iter\<close> or \<open>operator[]\<close>: reading at or after the end is
  \<open>OutOfRange\<close>. \<open>rd_back\<close> is \<open>iter[-k]\<close>. \<open>find_from\<close> is
  \<open>std::find (begin + i, end, c)\<close>, which gives the end when there is no \<open>c\<close>.
\<close>

definition rd :: "bytes \<Rightarrow> nat \<Rightarrow> char res" where
  "rd b i = (if i < length b then Inr (b ! i) else Inl OutOfRange)"

definition rd_back :: "bytes \<Rightarrow> nat \<Rightarrow> nat \<Rightarrow> char res" where
  "rd_back b i k = (if k \<le> i then rd b (i - k) else Inl OutOfRange)"

definition find_from :: "char \<Rightarrow> bytes \<Rightarrow> nat \<Rightarrow> nat" where
  "find_from c b i = i + length (takeWhile (\<lambda>x. x \<noteq> c) (drop i b))"

lemma rd_append [simp]: "rd (xs @ ys) (length xs + k) = rd ys k"
  by (simp add: rd_def nth_append)

lemma rd_append0 [simp]: "rd (xs @ ys) (length xs) = rd ys 0"
  using rd_append [of xs ys 0] by simp

lemma rd_Cons0 [simp]: "rd (x # xs) 0 = Inr x"
  by (simp add: rd_def)

lemma rd_in: "i < length b \<Longrightarrow> rd b i = Inr (b ! i)"
  by (simp add: rd_def)

lemma takeWhile_hit [simp]: "c \<notin> set ys \<Longrightarrow> takeWhile (\<lambda>x. x \<noteq> c) (ys @ c # zs) = ys"
  by (induction ys) auto

lemma find_from_hit [simp]:
  "c \<notin> set ys \<Longrightarrow> find_from c (xs @ ys @ c # zs) (length xs) = length xs + length ys"
  by (simp add: find_from_def)

lemma find_from_range: "i \<le> length b \<Longrightarrow> i \<le> find_from c b i \<and> find_from c b i \<le> length b"
  using length_takeWhile_le [of "\<lambda>x. x \<noteq> c" "drop i b"] by (simp add: find_from_def)

lemma drop_eq_Cons_less: "drop n xs = y # ys \<Longrightarrow> length ys < length xs"
  by (drule arg_cong [where f = length]) simp

section \<open>Joining with a separator\<close>

fun join_sep :: "'a list \<Rightarrow> 'a list list \<Rightarrow> 'a list" where
  "join_sep s [] = []"
| "join_sep s [x] = x"
| "join_sep s (x # y # xs) = x @ s @ join_sep s (y # xs)"

lemma join_sep_snoc:
  "join_sep s (xs @ [x]) = (if xs = [] then x else join_sep s xs @ s @ x)"
  by (induction s xs rule: join_sep.induct) auto

lemma join_sep_Cons:
  "join_sep s (x # xs) = (if xs = [] then x else x @ s @ join_sep s xs)"
  by (cases xs) auto

lemma join_sep_eq_Nil: "[] \<notin> set xs \<Longrightarrow> join_sep s xs = [] \<longleftrightarrow> xs = []"
  by (induction s xs rule: join_sep.induct) auto

lemma set_join_sep: "set (join_sep s xs) \<subseteq> set s \<union> (\<Union>x \<in> set xs. set x)"
  by (induction s xs rule: join_sep.induct) auto

end
