(* ===== verification/BufferWrite.thy ===== *)
theory BufferWrite
  imports CodyPrelude
begin

text \<open>
  The writing half of \<open>Detail::MessageBuffer\<close> (\<open>buffer.cc\<close>, \<open>cody.hh\<close>): starting
  lines, appending quoted or unquoted words, integers and separators, and finishing a
  block. The second half of the theory states what a buffer under construction holds,
  as a list of lines of words, and shows that the operations implement that view.
\<close>

section \<open>The buffer and its operations\<close>

text \<open>
  \<open>buffer\<close> is the character vector, \<open>lastBol\<close> the position of the most recent
  beginning of line (or the position reached when writing). The capacity the code
  reserves ahead has no effect on the contents and is treated separately below.
\<close>

record MessageBuffer =
  buffer :: bytes
  lastBol :: nat

definition empty_buffer :: MessageBuffer where
  "empty_buffer = \<lparr>buffer = [], lastBol = 0\<rparr>"

text \<open>
  The defaulted move: the new buffer, and what is left of the old one. The vector is
  emptied, the position is copied and stays.
\<close>

definition MessageBuffer_move :: "MessageBuffer \<Rightarrow> MessageBuffer \<times> MessageBuffer" where
  "MessageBuffer_move b = (b, b\<lparr>buffer := []\<rparr>)"

definition PrepareToWrite :: "MessageBuffer \<Rightarrow> MessageBuffer" where
  "PrepareToWrite b = b\<lparr>buffer := buffer b @ [NL], lastBol := 0\<rparr>"

definition PrepareToRead :: "MessageBuffer \<Rightarrow> MessageBuffer" where
  "PrepareToRead b = b\<lparr>buffer := [], lastBol := 0\<rparr>"

definition BeginLine :: "MessageBuffer \<Rightarrow> MessageBuffer" where
  "BeginLine b =
     (let b1 = (if buffer b \<noteq> [] then b\<lparr>buffer := buffer b @ [SPC] @ [CONTINUE] @ [NL]\<rparr> else b)
      in b1\<lparr>lastBol := length (buffer b1)\<rparr>)"

definition EndLine :: "MessageBuffer \<Rightarrow> MessageBuffer" where
  "EndLine b = b"

definition IsAtEnd :: "MessageBuffer \<Rightarrow> bool" where
  "IsAtEnd b \<longleftrightarrow> lastBol b = length (buffer b)"

text \<open>
  The two character tests of \<open>Append\<close>, both on \<open>unsigned char\<close>: which characters
  force a word to be quoted, and which must be escaped inside quotes.
\<close>

definition needs_quote :: "char \<Rightarrow> bool" where
  "needs_quote c \<longleftrightarrow>
     \<not> ((uchar CHR ''a'' \<le> uchar c \<and> uchar c \<le> uchar CHR ''z'')
      \<or> (uchar CHR ''A'' \<le> uchar c \<and> uchar c \<le> uchar CHR ''Z'')
      \<or> (uchar CHR ''0'' \<le> uchar c \<and> uchar c \<le> uchar CHR ''9'')
      \<or> c = CHR ''-'' \<or> c = CHR ''+'' \<or> c = CHR ''_''
      \<or> c = CHR ''/'' \<or> c = CHR ''%'' \<or> c = CHR ''.'')"

definition needs_escape :: "char \<Rightarrow> bool" where
  "needs_escape c \<longleftrightarrow> uchar c < uchar SPC \<or> uchar c = 0x7f \<or> c = BSLASH \<or> c = APOS"

text \<open>The scan \<open>for (size_t ix = len; ix--;)\<close>, from the end of the string down.\<close>

fun scan_quote :: "bytes \<Rightarrow> nat \<Rightarrow> bool" where
  "scan_quote str 0 = False"
| "scan_quote str (Suc ix) = (if needs_quote (str ! ix) then True else scan_quote str ix)"

text \<open>
  The escape of one character after the backslash: the switch of \<open>Append\<close>, whose
  default case is a loop over the two nibbles, high one first.
\<close>

fun escape_nibbles :: "nat \<Rightarrow> nat \<Rightarrow> bytes" where
  "escape_nibbles c 0 = []"
| "escape_nibbles c (Suc n) =
     (let shift = Suc n - 4;
          nibble = (drop_bit shift c AND 0xf) + 48;
          nibble = (if nibble > 57 then nibble + (97 - (57 + 1)) else nibble)
      in char_of nibble # escape_nibbles c shift)"

definition escape_char :: "char \<Rightarrow> bytes" where
  "escape_char c =
     (if c = TAB then ''t''
      else if c = NL then ''n''
      else if c = APOS \<or> c = BSLASH then [c]
      else escape_nibbles (of_char c) 8)"

text \<open>
  The main loop of \<open>Append\<close>: \<open>str\<close> is what is left up to \<open>end\<close>. When quoting, the
  run up to the next character that needs an escape is inserted as it is; otherwise
  the whole rest is.
\<close>

function append_loop :: "bool \<Rightarrow> bytes \<Rightarrow> bytes \<Rightarrow> bytes" where
  "append_loop quote str buf =
     (if str = [] then buf
      else let run = (if quote then takeWhile (\<lambda>c. \<not> needs_escape c) str else str);
               buf = buf @ run;
               str = drop (length run) str
           in (case str of
                 [] \<Rightarrow> buf
               | c # str' \<Rightarrow> append_loop quote str' (buf @ [BSLASH] @ escape_char c)))"
  by pat_completeness auto
termination
  by (relation "measure (\<lambda>(q, str, buf). length str)")
    (auto dest: drop_eq_Cons_less [OF sym])

text \<open>
  The characters a \<open>(str, len)\<close> pair denotes. \<open>None\<close> is the default argument
  \<open>~size_t (0)\<close>, which stands for \<open>strlen\<close>; \<open>str\<close> is the memory the pointer gives
  access to, and a given length never exceeds it (C++ leaves that case undefined).
\<close>

definition c_extent :: "bytes \<Rightarrow> nat option \<Rightarrow> bytes" where
  "c_extent str len =
     (case len of None \<Rightarrow> takeWhile (\<lambda>c. c \<noteq> NUL) str | Some n \<Rightarrow> take n str)"

definition Append :: "bytes \<Rightarrow> bool \<Rightarrow> nat option \<Rightarrow> MessageBuffer \<Rightarrow> MessageBuffer" where
  "Append str quote len b =
     (let str = c_extent str len; len = length str
      in if len = 0 \<and> \<not> quote then b
         else
           let quote = (if quote \<and> len \<noteq> 0 then scan_quote str len else quote);
               b = (if quote then b\<lparr>buffer := buffer b @ [APOS]\<rparr> else b);
               b = b\<lparr>buffer := append_loop quote str (buffer b)\<rparr>
           in if quote then b\<lparr>buffer := buffer b @ [APOS]\<rparr> else b)"

definition Append_char :: "char \<Rightarrow> MessageBuffer \<Rightarrow> MessageBuffer" where
  "Append_char c b = b\<lparr>buffer := buffer b @ [c]\<rparr>"

definition Space :: "MessageBuffer \<Rightarrow> MessageBuffer" where
  "Space b = Append_char SPC b"

definition AppendWord :: "bytes \<Rightarrow> bool \<Rightarrow> nat option \<Rightarrow> MessageBuffer \<Rightarrow> MessageBuffer" where
  "AppendWord str maybe_quote len b =
     (let b = (if length (buffer b) \<noteq> lastBol b then Space b else b)
      in Append str maybe_quote len b)"

text \<open>
  The pointer arguments may be null (\<open>None\<close>). Then \<open>strlen\<close> is undefined, and so is reading
  the string, so only an explicit length of 0 has a result.
\<close>

definition Append_ptr :: "bytes option \<Rightarrow> bool \<Rightarrow> nat option \<Rightarrow> MessageBuffer \<Rightarrow> MessageBuffer res" where
  "Append_ptr str quote len b =
     (case str of
        Some s \<Rightarrow> Inr (Append s quote len b)
      | None \<Rightarrow> if len = Some 0 then Inr (Append [] quote len b) else Inl OutOfRange)"

definition AppendWord_ptr :: "bytes option \<Rightarrow> bool \<Rightarrow> nat option \<Rightarrow> MessageBuffer \<Rightarrow> MessageBuffer res" where
  "AppendWord_ptr str maybe_quote len b =
     (let b = (if length (buffer b) \<noteq> lastBol b then Space b else b)
      in Append_ptr str maybe_quote len b)"

text \<open>The overload for \<open>std::string\<close>, which passes \<open>data ()\<close> and \<open>size ()\<close>.\<close>

definition AppendWord_string :: "bytes \<Rightarrow> bool \<Rightarrow> MessageBuffer \<Rightarrow> MessageBuffer" where
  "AppendWord_string str maybe_quote b = AppendWord str maybe_quote (Some (length str)) b"

text \<open>\<open>std::to_string\<close> of an \<open>unsigned\<close>: decimal digits, no sign, no padding.\<close>

fun to_string :: "nat \<Rightarrow> bytes" where
  "to_string n =
     (if n < 10 then [char_of (48 + n)] else to_string (n div 10) @ [char_of (48 + n mod 10)])"

definition AppendInteger :: "32 word \<Rightarrow> MessageBuffer \<Rightarrow> MessageBuffer" where
  "AppendInteger u b = AppendWord_string (to_string (unat u)) False b"

declare append_loop.simps [simp del]
declare to_string.simps [simp del]


section \<open>What a buffer under construction holds\<close>

text \<open>
  The reference encoding, as the comment at the top of \<open>buffer.cc\<close> and the README
  describe it: a word is written as it is when all its characters are safe, otherwise
  in quotes with escapes; the words of a line are separated by a space; the lines of a
  block are separated by a continuation.
\<close>

definition esc :: "char \<Rightarrow> bytes" where
  "esc c = (if needs_escape c then BSLASH # escape_char c else [c])"

definition safe_word :: "bytes \<Rightarrow> bool" where
  "safe_word w \<longleftrightarrow> w \<noteq> [] \<and> (\<forall>c \<in> set w. \<not> needs_quote c)"

definition enc_word :: "bytes \<Rightarrow> bytes" where
  "enc_word w = (if safe_word w then w else APOS # concat (map esc w) @ [APOS])"

definition enc_line :: "bytes list \<Rightarrow> bytes" where
  "enc_line ws = join_sep [SPC] (map enc_word ws)"

definition continuation :: bytes where
  "continuation = [SPC, CONTINUE, NL]"

definition text_block :: "bytes list \<Rightarrow> bytes" where
  "text_block ls = join_sep continuation ls"

definition enc_block :: "bytes list list \<Rightarrow> bytes" where
  "enc_block ls = text_block (map enc_line ls)"

lemma scan_quote_iff: "n \<le> length s \<Longrightarrow> scan_quote s n \<longleftrightarrow> (\<exists>c \<in> set (take n s). needs_quote c)"
  by (induction n) (auto simp: take_Suc_conv_app_nth)

lemma append_loop_unquoted: "append_loop False s buf = buf @ s"
  by (subst append_loop.simps) simp

lemma concat_esc_run: "concat (map esc (takeWhile (\<lambda>c. \<not> needs_escape c) s)) = takeWhile (\<lambda>c. \<not> needs_escape c) s"
  by (induction s) (auto simp: esc_def)

lemma append_loop_quoted: "append_loop True s buf = buf @ concat (map esc s)"
proof (induction "length s" arbitrary: s buf rule: less_induct)
  case less
  let ?run = "takeWhile (\<lambda>c. \<not> needs_escape c) s"
  have split: "s = ?run @ drop (length ?run) s"
    by (metis takeWhile_dropWhile_id takeWhile_eq_take append_take_drop_id)
  show ?case
  proof (cases "drop (length ?run) s")
    case Nil
    then have "append_loop True s buf = buf @ ?run"
      by (subst append_loop.simps) auto
    moreover have run: "?run = s" using split Nil by simp
    moreover have "concat (map esc s) = s" using concat_esc_run [of s] unfolding run .
    ultimately show ?thesis by simp
  next
    case (Cons c s')
    have "needs_escape c"
      using nth_length_takeWhile [of "\<lambda>c. \<not> needs_escape c" s] Cons
      by (metis Cons_nth_drop_Suc drop_all linorder_not_less list.distinct(1) list.inject)
    then have "esc c = BSLASH # escape_char c" by (simp add: esc_def)
    moreover have "append_loop True s buf = append_loop True s' (buf @ ?run @ BSLASH # escape_char c)"
      using Cons by (subst append_loop.simps) auto
    moreover have "append_loop True s' (buf @ ?run @ BSLASH # escape_char c)
        = (buf @ ?run @ BSLASH # escape_char c) @ concat (map esc s')"
      using drop_eq_Cons_less [OF Cons] by (rule less.hyps)
    moreover have "concat (map esc s) = ?run @ esc c @ concat (map esc s')"
      by (subst split) (simp add: Cons concat_esc_run)
    ultimately show ?thesis by simp
  qed
qed

text \<open>What \<open>Append\<close> adds, on every branch.\<close>

definition app_bytes :: "bool \<Rightarrow> bytes \<Rightarrow> bytes" where
  "app_bytes quote s = (if quote then enc_word s else s)"

lemma Append_adds:
  "Append str quote len b = b\<lparr>buffer := buffer b @ app_bytes quote (c_extent str len)\<rparr>"
proof (cases "quote \<and> c_extent str len \<noteq> []")
  case True
  then show ?thesis
    by (auto simp: Append_def Let_def app_bytes_def scan_quote_iff append_loop_quoted
        append_loop_unquoted enc_word_def safe_word_def)
next
  case False
  then show ?thesis
    by (auto simp: Append_def Let_def app_bytes_def append_loop_quoted append_loop_unquoted
        enc_word_def safe_word_def)
qed

lemma c_extent_all [simp]: "c_extent s (Some (length s)) = s"
  by (simp add: c_extent_def)

lemma c_extent_strlen: "NUL \<notin> set s \<Longrightarrow> c_extent (s @ [NUL] @ t) None = s"
  by (simp add: c_extent_def)


text \<open>
  A line as it stands in a block, however it was written: it is not empty, has no newline in
  it and does not end in a semicolon. \<open>holds_lines\<close> says that a buffer holds exactly such lines.
\<close>

definition plain_line :: "bytes \<Rightarrow> bool" where
  "plain_line l \<longleftrightarrow> l \<noteq> [] \<and> NL \<notin> set l \<and> last l \<noteq> CONTINUE"

definition holds_lines :: "bytes list \<Rightarrow> MessageBuffer \<Rightarrow> bool" where
  "holds_lines ls b \<longleftrightarrow> list_all plain_line ls \<and> buffer b = text_block ls"

definition line_start :: "bytes list \<Rightarrow> bytes" where
  "line_start ls = (if ls = [] then [] else text_block ls @ continuation)"

text \<open>
  A buffer under construction: \<open>holds_block ls b\<close> says that exactly the lines \<open>ls\<close> of words
  have been written, \<open>holds_after pre ls b\<close> that they follow the lines \<open>pre\<close>, of any text, and
  \<open>building pre ls ws b\<close> that after all these a line has been begun and the words \<open>ws\<close>
  appended to it.
\<close>

definition holds_block :: "bytes list list \<Rightarrow> MessageBuffer \<Rightarrow> bool" where
  "holds_block ls b \<longleftrightarrow> [] \<notin> set ls \<and> buffer b = enc_block ls"

definition holds_after :: "bytes list \<Rightarrow> bytes list list \<Rightarrow> MessageBuffer \<Rightarrow> bool" where
  "holds_after pre ls b \<longleftrightarrow> [] \<notin> set pre \<and> [] \<notin> set ls \<and> buffer b = text_block (pre @ map enc_line ls)"

definition building :: "bytes list \<Rightarrow> bytes list list \<Rightarrow> bytes list \<Rightarrow> MessageBuffer \<Rightarrow> bool" where
  "building pre ls ws b \<longleftrightarrow> [] \<notin> set pre \<and> [] \<notin> set ls
     \<and> buffer b = line_start (pre @ map enc_line ls) @ enc_line ws
     \<and> lastBol b = length (line_start (pre @ map enc_line ls))"

lemma enc_word_nonempty [simp]: "enc_word w \<noteq> []"
  by (auto simp: enc_word_def safe_word_def)

lemma enc_line_eq_Nil [simp]: "enc_line ws = [] \<longleftrightarrow> ws = []" "[] = enc_line ws \<longleftrightarrow> ws = []"
proof -
  have "[] \<notin> set (map enc_word ws)" by (auto dest!: sym [of "[]"])
  then show "enc_line ws = [] \<longleftrightarrow> ws = []" by (simp add: enc_line_def join_sep_eq_Nil)
  then show "[] = enc_line ws \<longleftrightarrow> ws = []" by metis
qed

lemma enc_line_snoc:
  "enc_line (ws @ [w]) = (if ws = [] then enc_word w else enc_line ws @ SPC # enc_word w)"
  by (simp add: enc_line_def join_sep_snoc)

lemma enc_line_Nil [simp]: "enc_line [] = []"
  by (simp add: enc_line_def)

lemma text_block_Nil [simp]: "text_block [] = []"
  by (simp add: text_block_def)

lemma text_block_eq_Nil: "[] \<notin> set ls \<Longrightarrow> text_block ls = [] \<longleftrightarrow> ls = []"
  by (simp add: text_block_def join_sep_eq_Nil)

lemma text_block_snoc: "text_block (ls @ [l]) = line_start ls @ l"
  by (simp add: text_block_def line_start_def join_sep_snoc)

lemma text_block_Cons: "text_block (l # ls) = l @ (if ls = [] then [] else continuation @ text_block ls)"
  by (simp add: text_block_def join_sep_Cons)

lemma enc_block_Nil [simp]: "enc_block [] = []"
  by (simp add: enc_block_def)

lemma enc_block_Cons:
  "enc_block (ws # ls) = enc_line ws @ (if ls = [] then [] else continuation @ enc_block ls)"
  by (simp add: enc_block_def text_block_Cons)

lemma Nil_enc_line: "[] \<in> set (map enc_line ls) \<longleftrightarrow> [] \<in> set ls"
  by (auto simp: image_iff)

lemma holds_block_after: "holds_block = holds_after []"
  by (intro ext) (simp add: holds_block_def holds_after_def enc_block_def)

lemma holds_lines_Nil [simp]: "holds_lines [] b \<longleftrightarrow> buffer b = []"
  by (simp add: holds_lines_def)

lemma BeginLine_start:
  assumes "[] \<notin> set ls" and "buffer b = text_block ls"
  shows "buffer (BeginLine b) = line_start ls" and "lastBol (BeginLine b) = length (line_start ls)"
  using assms text_block_eq_Nil [of ls] by (simp_all add: BeginLine_def Let_def line_start_def continuation_def)

lemma BeginLine_building: "holds_after pre ls b \<Longrightarrow> building pre ls [] (BeginLine b)"
  using BeginLine_start [of "pre @ map enc_line ls" b] Nil_enc_line [of ls]
  by (simp add: holds_after_def building_def)

lemma AppendWord_adds:
  "AppendWord str q len b = b\<lparr>buffer := buffer b
     @ (if length (buffer b) \<noteq> lastBol b then [SPC] else []) @ app_bytes q (c_extent str len)\<rparr>"
  by (simp add: AppendWord_def Append_adds Space_def Append_char_def)

lemma AppendWord_building:
  assumes "building pre ls ws b" and "q \<or> safe_word (c_extent str len)"
  shows "building pre ls (ws @ [c_extent str len]) (AppendWord str q len b)"
proof -
  have "app_bytes q (c_extent str len) = enc_word (c_extent str len)"
    using assms(2) by (auto simp: app_bytes_def enc_word_def)
  then show ?thesis
    using assms(1) by (auto simp: building_def AppendWord_adds enc_line_snoc)
qed

lemma AppendWord_string_building:
  "building pre ls ws b \<Longrightarrow> q \<or> safe_word w \<Longrightarrow> building pre ls (ws @ [w]) (AppendWord_string w q b)"
  using AppendWord_building [of pre ls ws b q w "Some (length w)"] by (simp add: AppendWord_string_def)

lemma AppendWord_as_string: "AppendWord str q len b = AppendWord_string (c_extent str len) q b"
  by (simp add: AppendWord_string_def AppendWord_adds)

lemma EndLine_holds: "building pre ls ws b \<Longrightarrow> ws \<noteq> [] \<Longrightarrow> holds_after pre (ls @ [ws]) (EndLine b)"
  using text_block_snoc [of "pre @ map enc_line ls" "enc_line ws"]
  by (auto simp: building_def holds_after_def EndLine_def)

text \<open>Words appended without quoting, one after the other, as they are.\<close>

lemma fold_AppendWord_raw:
  assumes "length (buffer b) \<noteq> lastBol b" and "lastBol b \<le> length (buffer b)"
  shows "fold (\<lambda>a. AppendWord a False None) as b = b\<lparr>buffer := buffer b @ concat (map (\<lambda>a. SPC # c_extent a None) as)\<rparr>"
  using assms by (induction as arbitrary: b) (simp_all add: AppendWord_adds app_bytes_def)

section \<open>The interface of a line sink\<close>

text \<open>
  What the client and the server rely on when they emit a message: a line is begun,
  words are appended, the line is ended, and the sink then holds one line more.
\<close>

locale line_sink =
  fixes begin_line :: "'b \<Rightarrow> 'b"
    and put_word :: "bytes \<Rightarrow> bool \<Rightarrow> 'b \<Rightarrow> 'b"
    and end_line :: "'b \<Rightarrow> 'b"
    and whole :: "bytes list list \<Rightarrow> 'b \<Rightarrow> bool"
    and partial :: "bytes list list \<Rightarrow> bytes list \<Rightarrow> 'b \<Rightarrow> bool"
  assumes begin_partial: "whole ls b \<Longrightarrow> partial ls [] (begin_line b)"
    and put_partial: "partial ls ws b \<Longrightarrow> q \<or> safe_word w \<Longrightarrow> partial ls (ws @ [w]) (put_word w q b)"
    and end_whole: "partial ls ws b \<Longrightarrow> ws \<noteq> [] \<Longrightarrow> whole (ls @ [ws]) (end_line b)"
begin

lemma put_words_partial:
  "partial ls ws b \<Longrightarrow> partial ls (ws @ vs) (fold (\<lambda>w. put_word w True) vs b)"
proof (induction vs arbitrary: ws b)
  case (Cons v vs)
  from Cons.prems have "partial ls (ws @ [v]) (put_word v True b)"
    by (rule put_partial) simp
  from Cons.IH [OF this] show ?case by simp
qed simp

lemma put_line_whole:
  "whole ls b \<Longrightarrow> ws \<noteq> []
   \<Longrightarrow> whole (ls @ [ws]) (end_line (fold (\<lambda>w. put_word w True) ws (begin_line b)))"
  using end_whole [OF put_words_partial [OF begin_partial]] by fastforce

lemma put_lines_whole:
  "whole ls b \<Longrightarrow> [] \<notin> set ms
   \<Longrightarrow> whole (ls @ ms) (fold (\<lambda>ws b. end_line (fold (\<lambda>w. put_word w True) ws (begin_line b))) ms b)"
proof (induction ms arbitrary: ls b)
  case (Cons m ms)
  then have "whole (ls @ [m]) (end_line (fold (\<lambda>w. put_word w True) m (begin_line b)))"
    by (intro put_line_whole) auto
  from Cons.IH [OF this] Cons.prems show ?case by simp
qed simp

lemma keyword_line:
  "whole ls b \<Longrightarrow> safe_word k \<Longrightarrow> whole (ls @ [[k]]) (end_line (put_word k False (begin_line b)))"
  using end_whole [OF put_partial [OF begin_partial]] by fastforce

lemma keyword_word_line:
  assumes "whole ls b" and "safe_word k" and "q \<or> safe_word w"
  shows "whole (ls @ [[k, w]]) (end_line (put_word w q (put_word k False (begin_line b))))"
proof -
  have "partial ls ([] @ [k]) (put_word k False (begin_line b))"
    using assms by (intro put_partial begin_partial) auto
  then have "partial ls (([] @ [k]) @ [w]) (put_word w q (put_word k False (begin_line b)))"
    by (rule put_partial) (rule assms(3))
  then show ?thesis using end_whole by fastforce
qed

end

text \<open>The buffer is such a sink, after any lines it may hold already and from the beginning.\<close>

interpretation after: line_sink BeginLine "\<lambda>w q. AppendWord_string w q" EndLine "holds_after pre" "building pre" for pre
  by unfold_locales (auto intro: BeginLine_building AppendWord_string_building EndLine_holds)

interpretation buf: line_sink BeginLine "\<lambda>w q. AppendWord_string w q" EndLine holds_block "building []"
  unfolding holds_block_after by (rule after.line_sink_axioms)

end
