(* ===== verification/BufferLex.thy ===== *)
theory BufferLex
  imports BufferWrite
begin

text \<open>
  The lexing half of \<open>Detail::MessageBuffer\<close>: \<open>Lex\<close> splits the next line of a block
  into words, \<open>LexedLine\<close> recovers its text for error messages. The definitions keep
  the iterator as an index into the vector and check every read. The reference lexer, the
  proof that the code implements it and the round trips are in \<open>LexSpec\<close>, \<open>LexCorrect\<close> and
  \<open>RoundTrip\<close>.
\<close>

section \<open>Error numbers\<close>

abbreviation EINTR :: int where "EINTR \<equiv> 4"
abbreviation ENOENT :: int where "ENOENT \<equiv> 2"
abbreviation EAGAIN :: int where "EAGAIN \<equiv> 11"
abbreviation EINVAL :: int where "EINVAL \<equiv> 22"

section \<open>Lex\<close>

text \<open>
  \<open>Malformed iter\<close> is the jump to the label \<open>malformed\<close> with the iterator at \<open>iter\<close>;
  \<open>sc\<close> is the signedness of plain \<open>char\<close>, which the comparisons of the code see.
\<close>

datatype 'a lexed = Malformed nat | Lexed 'a

definition on_lexed :: "'a lexed res \<Rightarrow> ('a \<Rightarrow> 'b lexed res) \<Rightarrow> 'b lexed res" where
  "on_lexed r k = bind_res r (\<lambda>x. case x of Malformed i \<Rightarrow> Inr (Malformed i) | Lexed y \<Rightarrow> k y)"

lemma on_lexed_simps [simp, res_simps]:
  "on_lexed (Inl h) k = Inl h"
  "on_lexed (Inr (Malformed i)) k = Inr (Malformed i)"
  "on_lexed (Inr (Lexed y)) k = k y"
  by (simp_all add: on_lexed_def)

lemma on_lexed_eq_Lexed:
  "on_lexed r k = Inr (Lexed y) \<longleftrightarrow> (\<exists>x. r = Inr (Lexed x) \<and> k x = Inr (Lexed y))"
  by (auto simp: on_lexed_def bind_res_eq_Inr split: lexed.split_asm)

lemma bind_res_cong [fundef_cong]:
  "r = r' \<Longrightarrow> (\<And>x. r' = Inr x \<Longrightarrow> k x = k' x) \<Longrightarrow> bind_res r k = bind_res r' k'"
  by (cases r') auto

lemma on_lexed_cong [fundef_cong]:
  "r = r' \<Longrightarrow> (\<And>x. r' = Inr (Lexed x) \<Longrightarrow> k x = k' x) \<Longrightarrow> on_lexed r k = on_lexed r' k'"
  by (cases r') (auto simp: on_lexed_def split: lexed.split)

text \<open>The loop over at most two hexadecimal nibbles; \<open>Suc n\<close> of them are still allowed.\<close>

fun lex_hex :: "bool \<Rightarrow> bytes \<Rightarrow> nat \<Rightarrow> nat \<Rightarrow> 32 word \<Rightarrow> (nat \<times> 32 word) lexed res" where
  "lex_hex sc buf iter 0 v = Inr (Lexed (iter, v))"
| "lex_hex sc buf iter (Suc n) v =
     bind_res (rd buf iter) (\<lambda>c.
       if char_val sc c < char_val sc CHR ''0'' then
         (if Suc n = 2 then Inr (Malformed iter) else Inr (Lexed (iter, v)))
       else if char_val sc c \<le> char_val sc CHR ''9'' then
         lex_hex sc buf (iter + 1) n
           (push_bit 4 v OR word_of_int (char_val sc c - char_val sc CHR ''0''))
       else if char_val sc c < char_val sc CHR ''a'' then
         (if Suc n = 2 then Inr (Malformed iter) else Inr (Lexed (iter, v)))
       else if char_val sc c \<le> char_val sc CHR ''f'' then
         lex_hex sc buf (iter + 1) n
           (push_bit 4 v OR word_of_int (char_val sc c - (char_val sc CHR ''a'' - 10)))
       else
         (if Suc n = 2 then Inr (Malformed iter) else Inr (Lexed (iter, v))))"

text \<open>The switch after a backslash, with the iterator on the character that follows it.\<close>

definition lex_escape :: "bool \<Rightarrow> bytes \<Rightarrow> nat \<Rightarrow> (nat \<times> char) lexed res" where
  "lex_escape sc buf iter =
     bind_res (rd buf iter) (\<lambda>c.
       if c = BSLASH \<or> c = APOS then Inr (Lexed (iter + 1, c))
       else if c = CHR ''n'' then Inr (Lexed (iter + 1, NL))
       else if c = CHR ''_'' then Inr (Lexed (iter + 1, SPC))
       else if c = CHR ''t'' then Inr (Lexed (iter + 1, TAB))
       else
         on_lexed (lex_hex sc buf iter 2 0) (\<lambda>(iter, v). Inr (Lexed (iter, char_of (unat v)))))"

text \<open>\<open>word->push_back (c)\<close>, where \<open>word\<close> points to the last element of the result.\<close>

definition push_last :: "char \<Rightarrow> bytes list \<Rightarrow> bytes list" where
  "push_last c result = butlast result @ [last result @ [c]]"

lemma rd_Inr: "rd b i = Inr c \<longleftrightarrow> i < length b \<and> b ! i = c"
  by (auto simp: rd_def)

lemma lex_hex_forward: "lex_hex sc buf i n v = Inr (Lexed (j, w)) \<Longrightarrow> i \<le> j"
proof (induction n arbitrary: i v)
  case (Suc n)
  have IH: "lex_hex sc buf (Suc i) n v = Inr (Lexed (j, w)) \<Longrightarrow> i \<le> j" for v
    by (rule Suc_leD) (rule Suc.IH)
  from Suc.prems show ?case
    by (auto simp: bind_res_eq_Inr split: if_splits dest: IH)
qed simp

lemma lex_escape_forward: "lex_escape sc buf i = Inr (Lexed (j, c)) \<Longrightarrow> i \<le> j"
  by (auto simp: lex_escape_def bind_res_eq_Inr on_lexed_eq_Lexed split: if_splits
      dest: lex_hex_forward)

text \<open>The loop over a quoted run, entered after the opening apostrophe.\<close>

function lex_quoted :: "bool \<Rightarrow> bytes \<Rightarrow> nat \<Rightarrow> bytes list \<Rightarrow> (nat \<times> bytes list) lexed res" where
  "lex_quoted sc buf iter result =
     bind_res (rd buf iter) (\<lambda>c.
       if c = NL then Inr (Malformed iter)
       else if char_val sc c < char_val sc SPC \<or> char_val sc c \<ge> 0x7f then Inr (Malformed iter)
       else if c = APOS then Inr (Lexed (iter + 1, result))
       else if c = BSLASH then
         on_lexed (lex_escape sc buf (iter + 1))
           (\<lambda>(iter, c). lex_quoted sc buf iter (push_last c result))
       else lex_quoted sc buf (iter + 1) (push_last c result))"
  by pat_completeness auto
termination
  by (relation "measure (\<lambda>(sc, buf, iter, result). length buf - iter)")
    (auto simp: rd_Inr dest!: lex_escape_forward)

declare lex_quoted.simps [simp del]

lemma lex_quoted_forward: "lex_quoted sc buf i r = Inr (Lexed (j, r')) \<Longrightarrow> i < j"
proof (induction "length buf - i" arbitrary: i r rule: less_induct)
  case less
  have IH: "i < length buf \<Longrightarrow> Suc i \<le> a \<Longrightarrow> lex_quoted sc buf a q = Inr (Lexed (j, r')) \<Longrightarrow> i < j" for a q
    using less.hyps [of a q] diff_less_mono2 [of i a "length buf"] by linarith
  from less.prems show ?case
    by (subst (asm) lex_quoted.simps)
      (auto simp: bind_res_eq_Inr on_lexed_eq_Lexed rd_Inr split: if_splits
        intro: IH dest!: lex_escape_forward)
qed

text \<open>
  The main loop: \<open>word\<close> says whether the word pointer is set, in which case it points
  to the last element of \<open>result\<close>.
\<close>

function lex_words ::
  "bool \<Rightarrow> bytes \<Rightarrow> nat \<Rightarrow> bytes list \<Rightarrow> bool \<Rightarrow> (nat \<times> bytes list) lexed res" where
  "lex_words sc buf iter result word =
     bind_res (rd buf iter) (\<lambda>c.
       let iter = iter + 1 in
       if c = SPC \<or> c = TAB then lex_words sc buf iter result False
       else if c = NL then Inr (Lexed (iter, result))
       else if c = CONTINUE then
         (if word then Inr (Malformed iter)
          else bind_res (rd buf iter) (\<lambda>d.
            if d \<noteq> NL then Inr (Malformed iter) else Inr (Lexed (iter + 1, result))))
       else if char_val sc c \<le> char_val sc SPC \<or> char_val sc c \<ge> 0x7f then Inr (Malformed iter)
       else
         let result = (if \<not> word then result @ [[]] else result) in
         if c = APOS then
           on_lexed (lex_quoted sc buf iter result)
             (\<lambda>(iter, result). lex_words sc buf iter result True)
         else lex_words sc buf iter (push_last c result) True)"
  by pat_completeness auto
termination
  by (relation "measure (\<lambda>(sc, buf, iter, result, word). length buf - iter)")
    (auto simp: rd_Inr dest!: lex_quoted_forward)

declare lex_words.simps [simp del]

text \<open>
  The code at the label \<open>malformed\<close>: the rest of the line is skipped and its text,
  without a trailing continuation, becomes the only word of the result.
\<close>

definition lex_malformed :: "MessageBuffer \<Rightarrow> nat \<Rightarrow> (int \<times> bytes list \<times> MessageBuffer) res" where
  "lex_malformed b iter =
     (let iter = find_from NL (buffer b) iter in
      bind_res (rd_back (buffer b) iter 1) (\<lambda>c1.
      bind_res (if c1 = CONTINUE
                then bind_res (rd_back (buffer b) iter 2) (\<lambda>c2. Inr (c2 = SPC))
                else Inr False) (\<lambda>smells.
      let back = (if smells then iter - 2 else iter) in
      if back < lastBol b \<or> length (buffer b) < iter + 1 then Inl OutOfRange
      else Inr (EINVAL, [take (back - lastBol b) (drop (lastBol b) (buffer b))],
                b\<lparr>lastBol := iter + 1\<rparr>))))"

definition Lex_at :: "bool \<Rightarrow> MessageBuffer \<Rightarrow> (int \<times> bytes list \<times> MessageBuffer) res" where
  "Lex_at sc b =
     (if IsAtEnd b then Inr (ENOENT, [], b)
      else
        bind_res (rd_back (buffer b) (length (buffer b)) 1) (\<lambda>back.
        if back \<noteq> NL then Inl AssertFailure
        else
          bind_res (lex_words sc (buffer b) (lastBol b) [] False) (\<lambda>r.
            case r of
              Malformed iter \<Rightarrow> lex_malformed b iter
            | Lexed (iter, result) \<Rightarrow>
                Inr (if result = [] then ENOENT else 0, result, b\<lparr>lastBol := iter\<rparr>))))"

text \<open>The library as built for x86-64, where plain \<open>char\<close> is signed.\<close>

definition Lex :: "MessageBuffer \<Rightarrow> (int \<times> bytes list \<times> MessageBuffer) res" where
  "Lex b = Lex_at True b"

section \<open>LexedLine\<close>

text \<open>The backward search for the beginning of the line that ends before \<open>pos\<close>.\<close>

fun lexed_bol :: "bytes \<Rightarrow> nat \<Rightarrow> nat res" where
  "lexed_bol buf 0 = Inr 0"
| "lexed_bol buf (Suc p) =
     bind_res (rd buf p) (\<lambda>c. if c = NL then Inr (Suc p) else lexed_bol buf p)"

text \<open>
  \<open>LexedLine\<close> appends the text of the line to \<open>str\<close>. The test \<open>buffer[end-1] ==
  CONTINUE && buffer[end-2] == ' '\<close> has no guard on \<open>end\<close>, so an index below zero wraps
  to a huge \<open>size_t\<close> and is out of range.
\<close>

definition LexedLine :: "MessageBuffer \<Rightarrow> bytes \<Rightarrow> bytes res" where
  "LexedLine b str =
     (if lastBol b = 0 then Inr str
      else
        bind_res (lexed_bol (buffer b) (lastBol b - 1)) (\<lambda>pos.
        let end = lastBol b - 1 in
        bind_res (rd_back (buffer b) end 1) (\<lambda>c1.
        bind_res (if c1 = CONTINUE
                  then bind_res (rd_back (buffer b) end 2) (\<lambda>c2. Inr (c2 = SPC))
                  else Inr False) (\<lambda>cont.
        let end = (if cont then end - 2 else end) in
        if end < pos then Inl OutOfRange
        else Inr (str @ take (end - pos) (drop pos (buffer b)))))))"

end
