(* ===== verification/LexSpec.thy ===== *)
theory LexSpec
  imports BufferLex
begin

text \<open>
  A reference lexer for one line of text (without its newline), written on the list of
  its characters, and the proof that the iterator code of \<open>BufferLex\<close> computes it for any
  signedness of \<open>char\<close>. The reference follows the code, not the README, where the two differ:
  the README wants every unquoted character from 0x20 to 0xff accepted but backslash and
  apostrophe, while the code rejects a semicolon inside a word, 0x7f and everything from 0x80
  up, and accepts a backslash (\<open>lex_line_unquoted\<close>).
\<close>

section \<open>The reference lexer\<close>

definition hexval :: "char \<Rightarrow> nat option" where
  "hexval c =
     (if 48 \<le> uchar c \<and> uchar c \<le> 57 then Some (nat (uchar c - 48))
      else if 97 \<le> uchar c \<and> uchar c \<le> 102 then Some (nat (uchar c - 87))
      else None)"

text \<open>One or two lower case hexadecimal digits, as many as there are.\<close>

fun s_hex :: "bytes \<Rightarrow> (char \<times> bytes) option" where
  "s_hex [] = None"
| "s_hex [c] = map_option (\<lambda>h. (char_of h, [])) (hexval c)"
| "s_hex (c # d # cs) =
     (case hexval c of None \<Rightarrow> None
      | Some h \<Rightarrow> (case hexval d of None \<Rightarrow> Some (char_of h, d # cs)
                 | Some l \<Rightarrow> Some (char_of (16 * h + l), cs)))"

fun s_unesc :: "bytes \<Rightarrow> (char \<times> bytes) option" where
  "s_unesc [] = None"
| "s_unesc (c # cs) =
     (if c = BSLASH \<or> c = APOS then Some (c, cs)
      else if c = CHR ''n'' then Some (NL, cs)
      else if c = CHR ''_'' then Some (SPC, cs)
      else if c = CHR ''t'' then Some (TAB, cs)
      else s_hex (c # cs))"

lemma s_hex_shorter: "s_hex cs = Some (c, ds) \<Longrightarrow> length ds < length cs"
  by (induction cs rule: s_hex.induct) (auto split: option.splits)

lemma s_unesc_shorter: "s_unesc cs = Some (c, ds) \<Longrightarrow> length ds < length cs"
  by (cases cs) (auto split: if_splits dest: s_hex_shorter)

text \<open>The contents of a quoted run and what follows its closing apostrophe.\<close>

function s_quoted :: "bytes \<Rightarrow> (bytes \<times> bytes) option" where
  "s_quoted [] = None"
| "s_quoted (c # cs) =
     (if uchar c < 32 \<or> 127 \<le> uchar c then None
      else if c = APOS then Some ([], cs)
      else if c = BSLASH then
        (case s_unesc cs of None \<Rightarrow> None
         | Some (d, ds) \<Rightarrow> map_option (\<lambda>(w, rest). (d # w, rest)) (s_quoted ds))
      else map_option (\<lambda>(w, rest). (c # w, rest)) (s_quoted cs))"
  by pat_completeness auto
termination
  by (relation "measure length") (auto dest: s_unesc_shorter)

lemma s_quoted_shorter: "s_quoted cs = Some (w, rest) \<Longrightarrow> length rest < length cs"
proof (induction cs arbitrary: w rest rule: s_quoted.induct)
  case (2 c cs)
  then show ?case
    by (fastforce split: if_splits option.splits dest: s_unesc_shorter)
qed simp

text \<open>
  The words of a line; \<open>cur\<close> is the word being read, if there is one. A semicolon is
  only accepted as the last word of the line, where it marks a continuation.
\<close>

definition flush :: "bytes option \<Rightarrow> bytes list" where
  "flush cur = (case cur of None \<Rightarrow> [] | Some w \<Rightarrow> [w])"

definition so_far :: "bytes option \<Rightarrow> bytes" where
  "so_far cur = (case cur of None \<Rightarrow> [] | Some w \<Rightarrow> w)"

lemma flush_simps [simp]: "flush None = []" "flush (Some w) = [w]"
  by (simp_all add: flush_def)

lemma so_far_simps [simp]: "so_far None = []" "so_far (Some w) = w"
  by (simp_all add: so_far_def)

function s_words :: "bytes \<Rightarrow> bytes option \<Rightarrow> bytes list option" where
  "s_words [] cur = Some (flush cur)"
| "s_words (c # cs) cur =
     (if c = SPC \<or> c = TAB then map_option (\<lambda>ws. flush cur @ ws) (s_words cs None)
      else if c = CONTINUE then (if cur = None \<and> cs = [] then Some [] else None)
      else if uchar c \<le> 32 \<or> 127 \<le> uchar c then None
      else if c = APOS then
        (case s_quoted cs of None \<Rightarrow> None
         | Some (w, rest) \<Rightarrow> s_words rest (Some (so_far cur @ w)))
      else s_words cs (Some (so_far cur @ [c])))"
  by pat_completeness auto
termination
  by (relation "measure (\<lambda>(cs, cur). length cs)") (auto dest: s_quoted_shorter)

definition lex_line :: "bytes \<Rightarrow> bytes list option" where
  "lex_line line = s_words line None"

text \<open>What an unquoted word may hold: the printable characters of ASCII but the semicolon.\<close>

lemma s_words_unquoted:
  "\<forall>c \<in> set w. c \<notin> {SPC, TAB, APOS} \<Longrightarrow>
   s_words w (Some u) = (if \<forall>c \<in> set w. 32 < uchar c \<and> uchar c < 127 \<and> c \<noteq> CONTINUE then Some [u @ w] else None)"
  by (induction w arbitrary: u) auto

lemma lex_line_unquoted:
  assumes "w \<noteq> []" and "\<forall>c \<in> set w. c \<notin> {SPC, TAB, APOS}" and "w \<noteq> [CONTINUE]"
  shows "lex_line w = (if \<forall>c \<in> set w. 32 < uchar c \<and> uchar c < 127 \<and> c \<noteq> CONTINUE then Some [w] else None)"
  using assms s_words_unquoted [of "tl w" "[hd w]"] by (cases w) (auto simp: lex_line_def)

definition strip_cont :: "bytes \<Rightarrow> bytes" where
  "strip_cont line =
     (if 2 \<le> length line \<and> drop (length line - 2) line = [SPC, CONTINUE]
      then take (length line - 2) line else line)"

section \<open>Lines inside a buffer\<close>

text \<open>At index \<open>i\<close> the buffer has the characters \<open>cs\<close> and then the first newline.\<close>

definition line_at :: "bytes \<Rightarrow> nat \<Rightarrow> bytes \<Rightarrow> bool" where
  "line_at buf i cs \<longleftrightarrow> NL \<notin> set cs \<and> (\<exists>post. drop i buf = cs @ NL # post)"

lemma drop_eq_Cons_rd: "drop i buf = x # xs \<Longrightarrow> rd buf i = Inr x \<and> drop (Suc i) buf = xs"
  by (cases "i < length buf") (auto simp: rd_def simp flip: Cons_nth_drop_Suc)

lemma line_at_Nil: "line_at buf i [] \<Longrightarrow> rd buf i = Inr NL"
  by (auto simp: line_at_def dest!: drop_eq_Cons_rd)

lemma line_at_Cons:
  "line_at buf i (c # cs) \<Longrightarrow> rd buf i = Inr c"
  "line_at buf i (c # cs) \<Longrightarrow> c \<noteq> NL"
  "line_at buf i (c # cs) \<Longrightarrow> line_at buf (Suc i) cs"
  by (auto simp: line_at_def dest!: drop_eq_Cons_rd)

lemma line_at_find: "line_at buf i cs \<Longrightarrow> find_from NL buf i = i + length cs"
  by (auto simp: line_at_def find_from_def)

lemma line_at_tail:
  assumes "line_at buf i cs" and "i \<le> j" and "j \<le> i + length cs"
  shows "line_at buf j (drop (j - i) cs)"
proof -
  from assms(1) obtain post where "NL \<notin> set cs" and d: "drop i buf = cs @ NL # post"
    by (auto simp: line_at_def)
  have "drop j buf = drop (j - i) (drop i buf)" using assms(2) by simp
  also have "\<dots> = drop (j - i) cs @ NL # post" using d assms(2,3) by simp
  finally show ?thesis
    using \<open>NL \<notin> set cs\<close> by (auto simp: line_at_def dest: in_set_dropD)
qed

lemma line_at_length: "line_at buf i cs \<Longrightarrow> i + length cs < length buf"
proof -
  assume "line_at buf i cs"
  then obtain post where "drop i buf = cs @ NL # post" by (auto simp: line_at_def)
  from arg_cong [OF this, of length] show ?thesis by simp
qed

text \<open>
  The code's iterator result \<open>r\<close>, started at \<open>i\<close>, agrees with the list result \<open>s\<close>: it
  is malformed somewhere in the line, or it has consumed the same characters.
\<close>

definition lex_ok ::
  "bytes \<Rightarrow> nat \<Rightarrow> bytes \<Rightarrow> (nat \<times> 'x) lexed res \<Rightarrow> ('x \<times> bytes) option \<Rightarrow> bool" where
  "lex_ok buf i cs r s \<longleftrightarrow>
     (case s of
        None \<Rightarrow> \<exists>j. i \<le> j \<and> j \<le> i + length cs \<and> r = Inr (Malformed j)
      | Some (x, rest) \<Rightarrow>
          \<exists>j. i \<le> j \<and> j + length rest = i + length cs \<and> line_at buf j rest \<and> r = Inr (Lexed (j, x)))"

lemma lex_ok_None: "i \<le> j \<Longrightarrow> j \<le> i + length cs \<Longrightarrow> lex_ok buf i cs (Inr (Malformed j)) None"
  by (auto simp: lex_ok_def)

lemma lex_ok_Some:
  "i \<le> j \<Longrightarrow> j + length rest = i + length cs \<Longrightarrow> line_at buf j rest
   \<Longrightarrow> lex_ok buf i cs (Inr (Lexed (j, x))) (Some (x, rest))"
  by (auto simp: lex_ok_def)

lemma lex_ok_Cons: "lex_ok buf (Suc i) cs r s \<Longrightarrow> lex_ok buf i (c # cs) r s"
  by (auto simp: lex_ok_def split: option.splits intro: exI [of _ "_ :: nat"])

lemma lex_ok_bind:
  assumes "lex_ok buf i cs r s"
    and "\<And>j x rest. s = Some (x, rest) \<Longrightarrow> line_at buf j rest \<Longrightarrow> lex_ok buf j rest (k (j, x)) (t x rest)"
  shows "lex_ok buf i cs (on_lexed r k) (case s of None \<Rightarrow> None | Some (x, rest) \<Rightarrow> t x rest)"
proof (cases s)
  case None
  with assms(1) show ?thesis by (auto simp: lex_ok_def)
next
  case (Some p)
  obtain x rest where p: "p = (x, rest)" by (cases p)
  with Some assms(1) obtain j where j: "i \<le> j" "j + length rest = i + length cs"
    "line_at buf j rest" "r = Inr (Lexed (j, x))" by (auto simp: lex_ok_def)
  have "lex_ok buf j rest (k (j, x)) (t x rest)" using Some p j(3) by (intro assms(2)) auto
  then show ?thesis using Some p j by (fastforce simp: lex_ok_def split: option.splits)
qed

section \<open>The code implements the reference lexer\<close>

text \<open>Characters of the upper half fail every range test, whatever the sign of \<open>char\<close>.\<close>

lemma char_val_tests:
  "char_val sc c < 32 \<or> 127 \<le> char_val sc c \<longleftrightarrow> uchar c < 32 \<or> 127 \<le> uchar c"
  "char_val sc c \<le> 32 \<or> 127 \<le> char_val sc c \<longleftrightarrow> uchar c \<le> 32 \<or> 127 \<le> uchar c"
  using uchar_range [of c] by (auto simp: char_val_def)

lemma lex_hex_step:
  "lex_hex sc buf i (Suc n) v =
     bind_res (rd buf i) (\<lambda>c.
       case hexval c of
         None \<Rightarrow> if Suc n = 2 then Inr (Malformed i) else Inr (Lexed (i, v))
       | Some h \<Rightarrow> lex_hex sc buf (Suc i) n (push_bit 4 v OR word_of_int (int h)))"
proof -
  let ?F = "\<lambda>x. lex_hex sc buf (i + 1) n (push_bit 4 v OR word_of_int x)"
  have "(if char_val sc c < char_val sc CHR ''0'' then M
      else if char_val sc c \<le> char_val sc CHR ''9'' then ?F (char_val sc c - char_val sc CHR ''0'')
      else if char_val sc c < char_val sc CHR ''a'' then M
      else if char_val sc c \<le> char_val sc CHR ''f'' then ?F (char_val sc c - (char_val sc CHR ''a'' - 10))
      else M)
    = (case hexval c of None \<Rightarrow> M | Some h \<Rightarrow> ?F (int h))" for c M
    using uchar_range [of c] by (auto simp: char_val_def hexval_def)
  then show ?thesis unfolding lex_hex.simps(2) by (simp only: Suc_eq_plus1)
qed

declare lex_hex.simps(2) [simp del]

lemma hexval_NL [simp]: "hexval NL = None"
  by (simp add: hexval_def)

lemma hex_word1: "h < 16 \<Longrightarrow> unat (push_bit 4 0 OR word_of_int (int h) :: 32 word) = h"
  by (simp add: unsigned_of_nat take_bit_nat_eq_self)

lemma nibbles_or:
  assumes "l < 16"
  shows "push_bit 4 h OR l = 16 * h + (l :: nat)"
proof -
  have "int (push_bit 4 h OR l) = concat_bit 4 (int l) (int h)"
    using assms by (simp add: concat_bit_def of_nat_or_eq of_nat_push_bit take_bit_int_eq_self or.commute)
  also have "\<dots> = int (16 * h + l)"
    using assms by (simp add: concat_bit_eq push_bit_eq_mult take_bit_int_eq_self)
  finally show ?thesis by (simp only: of_nat_eq_iff)
qed

lemma hex_word2:
  assumes "h < 16" and "l < 16"
  shows "unat (push_bit 4 (word_of_int (int h)) OR word_of_int (int l) :: 32 word) = 16 * h + l"
proof -
  have "take_bit 32 (push_bit 4 h) = push_bit 4 h"
    using assms(1) by (simp add: take_bit_nat_eq_self push_bit_eq_mult)
  then have "unat (push_bit 4 (word_of_int (int h)) OR word_of_int (int l) :: 32 word)
      = push_bit 4 h OR l"
    using assms by (simp add: unsigned_or_eq unsigned_push_bit_eq unsigned_of_nat take_bit_nat_eq_self)
  then show ?thesis by (simp only: nibbles_or [OF assms(2)])
qed

lemma hexval_less: "hexval c = Some h \<Longrightarrow> h < 16"
  by (auto simp: hexval_def split: if_splits)

lemma lex_hex_refines:
  assumes at: "line_at buf i cs"
  shows "lex_ok buf i cs
    (on_lexed (lex_hex sc buf i 2 0) (\<lambda>(iter, v). Inr (Lexed (iter, char_of (unat v))))) (s_hex cs)"
  using at
proof (cases cs rule: s_hex.cases)
  case 1
  then show ?thesis
    using at by (auto simp: numeral_2_eq_2 lex_hex_step line_at_Nil intro: lex_ok_None)
next
  case (2 c)
  note at1 = line_at_Cons [OF at [unfolded 2]]
  show ?thesis
    using at1 line_at_Nil [OF at1(3)] 2 hex_word1
    by (auto simp: numeral_2_eq_2 lex_hex_step dest!: hexval_less split: option.split
        intro!: lex_ok_None lex_ok_Some)
next
  case (3 c d ds)
  note at1 = line_at_Cons [OF at [unfolded 3]]
  note at2 = line_at_Cons [OF at1(3)]
  have "unat (push_bit 4 (push_bit 4 0 OR word_of_int (int h)) OR word_of_int (int l) :: 32 word) = 16 * h + l"
    if "hexval c = Some h" and "hexval d = Some l" for h l
    using that [THEN hexval_less] hex_word2 [of h l] by simp
  then show ?thesis
    using at1 at2 3 hex_word1
    by (auto simp: numeral_2_eq_2 lex_hex_step dest!: hexval_less split: option.split
        intro!: lex_ok_None lex_ok_Some)
qed

lemma lex_escape_refines:
  assumes at: "line_at buf i cs"
  shows "lex_ok buf i cs (lex_escape sc buf i) (s_unesc cs)"
proof (cases cs)
  case Nil
  then show ?thesis using lex_hex_refines [OF at, of sc] at by (simp add: lex_escape_def line_at_Nil)
next
  case (Cons c cs')
  note at1 = line_at_Cons [OF at [unfolded Cons]]
  then show ?thesis
    using lex_hex_refines [OF at, of sc] Cons
    by (auto simp: lex_escape_def intro!: lex_ok_Some)
qed

lemma map_option_case: "map_option f s = (case s of None \<Rightarrow> None | Some x \<Rightarrow> Some (f x))"
  by (cases s) auto

definition push_run :: "bytes list \<Rightarrow> bytes \<times> bytes \<Rightarrow> bytes list \<times> bytes" where
  "push_run result p = (fold push_last (fst p) result, snd p)"

lemma lex_quoted_refines:
  "line_at buf i cs
   \<Longrightarrow> lex_ok buf i cs (lex_quoted sc buf i result) (map_option (push_run result) (s_quoted cs))"
proof (induction cs arbitrary: i result rule: s_quoted.induct)
  case 1
  then show ?case
    by (subst lex_quoted.simps) (auto simp: line_at_Nil intro!: lex_ok_None)
next
  case (2 c cs)
  note at = line_at_Cons [OF "2.prems"]
  have shift: "map_option (push_run result) (map_option (\<lambda>(w, rest). (d # w, rest)) q)
      = map_option (push_run (push_last d result)) q" for d q
    by (cases q) (auto simp: push_run_def)
  have esc: "lex_ok buf (Suc i) cs (on_lexed (lex_escape sc buf (Suc i)) (\<lambda>(j, d). lex_quoted sc buf j (push_last d result)))
     (case s_unesc cs of None \<Rightarrow> None
      | Some (d, ds) \<Rightarrow> map_option (push_run (push_last d result)) (s_quoted ds))"
    if "c = BSLASH" "\<not> (uchar c < 32 \<or> 127 \<le> uchar c)" "c \<noteq> APOS"
    by (rule lex_ok_bind [OF lex_escape_refines [OF at(3)]]) (use that in \<open>auto intro: "2.IH"(1)\<close>)
  consider (bad) "uchar c < 32 \<or> 127 \<le> uchar c" | (close) "c = APOS"
    | (escape) "c = BSLASH" "\<not> (uchar c < 32 \<or> 127 \<le> uchar c)" "c \<noteq> APOS"
    | (plain) "c \<noteq> APOS" "c \<noteq> BSLASH" "\<not> (uchar c < 32 \<or> 127 \<le> uchar c)"
    by blast
  then show ?case
  proof cases
    case bad
    then show ?thesis using at
      by (subst lex_quoted.simps) (auto simp: char_val_tests intro!: lex_ok_None)
  next
    case close
    then show ?thesis using at
      by (subst lex_quoted.simps) (auto simp: char_val_tests push_run_def intro!: lex_ok_Some)
  next
    case escape
    have "lex_quoted sc buf i result
        = on_lexed (lex_escape sc buf (Suc i)) (\<lambda>(j, d). lex_quoted sc buf j (push_last d result))"
      using at escape by (subst lex_quoted.simps) (simp add: char_val_tests)
    then show ?thesis
      using lex_ok_Cons [OF esc] escape
      by (cases "s_unesc cs") (auto simp: shift)
  next
    case plain
    then have "lex_quoted sc buf i result = lex_quoted sc buf (Suc i) (push_last c result)"
      using at by (subst lex_quoted.simps) (simp add: char_val_tests)
    then show ?thesis
      using lex_ok_Cons [OF "2.IH"(2) [OF _ _ _ at(3)]] plain by (simp add: shift)
  qed
qed

text \<open>
  The word loop consumes its newline, so its agreement with the list result is stated
  with the position after it.
\<close>

definition words_ok ::
  "nat \<Rightarrow> bytes \<Rightarrow> (nat \<times> bytes list) lexed res \<Rightarrow> bytes list option \<Rightarrow> bool" where
  "words_ok i cs r s \<longleftrightarrow>
     (case s of
        None \<Rightarrow> \<exists>j. i \<le> j \<and> j \<le> i + length cs \<and> r = Inr (Malformed j)
      | Some ws \<Rightarrow> r = Inr (Lexed (i + length cs + 1, ws)))"

lemma words_ok_Cons: "words_ok (Suc i) cs r s \<Longrightarrow> words_ok i (c # cs) r s"
  by (auto simp: words_ok_def split: option.splits)

lemma words_ok_bind:
  assumes "lex_ok buf i cs r s"
    and "\<And>j x rest. s = Some (x, rest) \<Longrightarrow> line_at buf j rest \<Longrightarrow> words_ok j rest (k (j, x)) (t x rest)"
  shows "words_ok i cs (on_lexed r k) (case s of None \<Rightarrow> None | Some (x, rest) \<Rightarrow> t x rest)"
proof (cases s)
  case None
  with assms(1) show ?thesis by (auto simp: lex_ok_def words_ok_def)
next
  case (Some p)
  obtain x rest where p: "p = (x, rest)" by (cases p)
  with Some assms(1) obtain j where j: "i \<le> j" "j + length rest = i + length cs"
    "line_at buf j rest" "r = Inr (Lexed (j, x))" by (auto simp: lex_ok_def)
  have "words_ok j rest (k (j, x)) (t x rest)" using Some p j(3) by (intro assms(2)) auto
  then show ?thesis using Some p j by (fastforce simp: words_ok_def split: option.splits)
qed

lemma fold_push_last: "fold push_last w (pre @ [u]) = pre @ [u @ w]"
  by (induction w arbitrary: u) (auto simp: push_last_def)

lemma lex_words_refines:
  "line_at buf i cs
   \<Longrightarrow> words_ok i cs (lex_words sc buf i (pre @ flush cur) (cur \<noteq> None))
        (map_option (\<lambda>ws. pre @ ws) (s_words cs cur))"
proof (induction cs cur arbitrary: i pre rule: s_words.induct)
  case (1 cur)
  then show ?case
    by (subst lex_words.simps) (simp add: line_at_Nil words_ok_def)
next
  case (2 c cs cur)
  note at = line_at_Cons [OF "2.prems"]
  let ?res = "if cur = None then (pre @ flush cur) @ [[]] else pre @ flush cur"
  have res: "?res = pre @ [so_far cur]" by (cases cur) auto
  have push: "push_last d (pre @ [so_far cur]) = pre @ flush (Some (so_far cur @ [d]))" for d
    by (simp add: push_last_def)
  consider (blank) "c = SPC \<or> c = TAB" | (cont) "c = CONTINUE"
    | (bad) "uchar c \<le> 32 \<or> 127 \<le> uchar c" "c \<noteq> SPC" "c \<noteq> TAB"
    | (quote) "c = APOS"
    | (plain) "c \<noteq> SPC" "c \<noteq> TAB" "c \<noteq> CONTINUE" "c \<noteq> APOS" "\<not> (uchar c \<le> 32 \<or> 127 \<le> uchar c)"
    by blast
  then show ?case
  proof cases
    case blank
    then have "lex_words sc buf i (pre @ flush cur) (cur \<noteq> None) = lex_words sc buf (Suc i) (pre @ flush cur) False"
      using at by (subst lex_words.simps) auto
    then show ?thesis
      using words_ok_Cons [OF "2.IH"(1) [OF blank at(3), of "pre @ flush cur"]] blank
      by (simp add: option.map_comp comp_def)
  next
    case cont
    show ?thesis
    proof (cases cs)
      case Nil
      then show ?thesis using cont at line_at_Nil [of buf "Suc i"]
        by (subst lex_words.simps) (auto simp: words_ok_def)
    next
      case (Cons d ds)
      then show ?thesis using cont at line_at_Cons [of buf "Suc i" d ds]
        by (subst lex_words.simps) (auto simp: words_ok_def)
    qed
  next
    case bad
    then show ?thesis using at
      by (subst lex_words.simps)
        (auto simp: char_val_tests words_ok_def)
  next
    case quote
    have "lex_words sc buf i (pre @ flush cur) (cur \<noteq> None)
        = on_lexed (lex_quoted sc buf (Suc i) (pre @ [so_far cur])) (\<lambda>(j, r). lex_words sc buf j r True)"
      using quote at res by (subst lex_words.simps) (simp add: char_val_tests)
    moreover have "words_ok (Suc i) cs \<dots>
        (case map_option (push_run (pre @ [so_far cur])) (s_quoted cs) of None \<Rightarrow> None
         | Some (r, rest) \<Rightarrow> map_option (\<lambda>ws. pre @ ws) (s_words rest (Some (last r))))"
    proof (rule words_ok_bind [OF lex_quoted_refines [OF at(3)]])
      fix j r rest
      assume s: "map_option (push_run (pre @ [so_far cur])) (s_quoted cs) = Some (r, rest)"
        and j: "line_at buf j rest"
      then obtain w where w: "s_quoted cs = Some (w, rest)" "r = pre @ [so_far cur @ w]"
        by (auto simp: push_run_def fold_push_last)
      show "words_ok j rest ((\<lambda>(j, r). lex_words sc buf j r True) (j, r))
          (map_option ((@) pre) (s_words rest (Some (last r))))"
        using "2.IH"(2) [OF _ _ _ _ w(1) refl j, of "pre"] quote w(2) by simp
    qed
    ultimately show ?thesis
      using quote by (auto simp: push_run_def fold_push_last split: option.split
          intro!: words_ok_Cons)
  next
    case plain
    then have "lex_words sc buf i (pre @ flush cur) (cur \<noteq> None)
        = lex_words sc buf (Suc i) (pre @ flush (Some (so_far cur @ [c]))) True"
      using at res push by (subst lex_words.simps) (simp add: char_val_tests)
    then show ?thesis
      using words_ok_Cons [OF "2.IH"(3) [OF _ _ _ _ at(3), of "pre"]] plain by simp
  qed
qed

end
