(* ===== verification/LexCorrect.thy ===== *)
theory LexCorrect
  imports LexSpec
begin

text \<open>
  What \<open>Lex\<close> and \<open>LexedLine\<close> do on a buffer of complete lines, that they never read
  out of range there (with the one exception the code has), and that the signedness of
  plain \<open>char\<close> makes no difference to \<open>Lex\<close> on any buffer.
\<close>

section \<open>Lex on a block of complete lines\<close>

text \<open>
  A buffer ready to be lexed: the position is at the beginning of a line, and unless
  everything has been consumed the contents end with a newline.
\<close>

definition readable :: "MessageBuffer \<Rightarrow> bool" where
  "readable b \<longleftrightarrow> lastBol b \<le> length (buffer b)
     \<and> (lastBol b < length (buffer b) \<longrightarrow> last (buffer b) = NL)
     \<and> (0 < lastBol b \<longrightarrow> buffer b ! (lastBol b - 1) = NL)"

definition next_line :: "MessageBuffer \<Rightarrow> bytes" where
  "next_line b = takeWhile (\<lambda>c. c \<noteq> NL) (drop (lastBol b) (buffer b))"

definition skip_line :: "MessageBuffer \<Rightarrow> MessageBuffer" where
  "skip_line b = b\<lparr>lastBol := lastBol b + length (next_line b) + 1\<rparr>"

lemma readable_line_at:
  assumes "readable b" and "\<not> IsAtEnd b"
  shows "line_at (buffer b) (lastBol b) (next_line b)"
proof -
  let ?d = "drop (lastBol b) (buffer b)"
  have "lastBol b < length (buffer b)" using assms by (simp add: readable_def IsAtEnd_def)
  then have "last ?d = NL" and "?d \<noteq> []" using assms(1) by (auto simp: readable_def)
  then have "NL \<in> set ?d" by (metis last_in_set)
  from split_list_first [OF this]
  obtain ys zs where "?d = ys @ NL # zs" and "NL \<notin> set ys" by blast
  then show ?thesis by (simp add: line_at_def next_line_def)
qed

lemma line_at_next_line: "line_at (buffer b) (lastBol b) cs \<Longrightarrow> next_line b = cs"
  by (auto simp: line_at_def next_line_def)

lemma skip_line_buffer [simp]: "buffer (skip_line b) = buffer b"
  by (simp add: skip_line_def)

lemma line_at_nth_end: "line_at buf i cs \<Longrightarrow> buf ! (i + length cs) = NL"
  using line_at_tail [of buf i cs "i + length cs"] by (auto simp: rd_Inr dest: line_at_Nil)

lemma skip_line_readable:
  assumes "readable b" and "\<not> IsAtEnd b"
  shows "readable (skip_line b)"
  using assms line_at_length [OF readable_line_at [OF assms]]
    line_at_nth_end [OF readable_line_at [OF assms]]
  by (auto simp: readable_def skip_line_def)

lemma lex_line_None_shape:
  assumes "lex_line cs = None"
  shows "cs \<noteq> []" and "cs \<noteq> [CONTINUE]"
  using assms by (auto simp: lex_line_def)

text \<open>The last two characters of a line, read backwards from its newline.\<close>

lemma line_at_back:
  assumes "line_at buf i cs" and "k \<le> length cs" and "0 < k"
  shows "rd_back buf (i + length cs) k = Inr (cs ! (length cs - k))"
proof -
  have "line_at buf (i + length cs - k) (drop (length cs - k) cs)"
    using line_at_tail [OF assms(1), of "i + length cs - k"] assms(2) by simp
  moreover have "drop (length cs - k) cs = cs ! (length cs - k) # drop (Suc (length cs - k)) cs"
    using assms by (simp add: Cons_nth_drop_Suc)
  ultimately show ?thesis
    using assms(2) by (simp add: rd_back_def line_at_Cons(1))
qed

lemma strip_cont_eq:
  "2 \<le> length cs \<Longrightarrow> strip_cont cs =
     (if cs ! (length cs - 1) = CONTINUE \<and> cs ! (length cs - 2) = SPC
      then take (length cs - 2) cs else cs)"
proof -
  assume l: "2 \<le> length cs"
  then have "drop (length cs - 2) cs = [cs ! (length cs - 2), cs ! (length cs - 1)]"
    by (simp add: Cons_nth_drop_Suc [symmetric] numeral_2_eq_2 Suc_diff_Suc)
  then show ?thesis using l by (auto simp: strip_cont_def)
qed

lemma strip_cont_short: "length cs < 2 \<Longrightarrow> strip_cont cs = cs"
  by (simp add: strip_cont_def)

lemma lex_malformed_line:
  assumes at: "line_at (buffer b) (lastBol b) cs"
    and j: "lastBol b \<le> j" "j \<le> lastBol b + length cs"
    and cs: "cs \<noteq> []" "cs \<noteq> [CONTINUE]"
  shows "lex_malformed b j = Inr (EINVAL, [strip_cont cs], skip_line b)"
proof -
  let ?e = "lastBol b + length cs"
  have find: "find_from NL (buffer b) j = ?e"
    using line_at_find [OF line_at_tail [OF at j]] j by simp
  have len: "?e < length (buffer b)" by (rule line_at_length [OF at])
  have back1: "rd_back (buffer b) ?e 1 = Inr (cs ! (length cs - 1))"
    using line_at_back [OF at, of 1] cs(1) by (cases cs) auto
  have take: "take n (drop (lastBol b) (buffer b)) = take n cs" if "n \<le> length cs" for n
    using at that by (auto simp: line_at_def)
  have skip: "skip_line b = b\<lparr>lastBol := ?e + 1\<rparr>"
    by (simp add: skip_line_def line_at_next_line [OF at])
  show ?thesis
  proof (cases "2 \<le> length cs")
    case True
    then have "rd_back (buffer b) ?e 2 = Inr (cs ! (length cs - 2))"
      using line_at_back [OF at, of 2] by simp
    then show ?thesis
      using find back1 len take True
      by (auto simp: lex_malformed_def skip strip_cont_eq Let_def)
  next
    case False
    then obtain c where "cs = [c]" using cs(1) by (cases cs rule: remdups_adj.cases) auto
    then show ?thesis
      using find back1 len take cs(2) by (auto simp: lex_malformed_def skip strip_cont_short Let_def)
  qed
qed

text \<open>
  The specification of \<open>Lex\<close>: it consumes exactly the next line; its result is that of
  the reference lexer, ENOENT when the line has no words and EINVAL with the text of
  the line when it is malformed.
\<close>

definition lex_result :: "bytes \<Rightarrow> int \<times> bytes list" where
  "lex_result line =
     (case lex_line line of None \<Rightarrow> (EINVAL, [strip_cont line])
      | Some ws \<Rightarrow> (if ws = [] then ENOENT else 0, ws))"

lemma Lex_at_line:
  assumes "readable b" and "\<not> IsAtEnd b"
  shows "Lex_at sc b = Inr (fst (lex_result (next_line b)), snd (lex_result (next_line b)), skip_line b)"
proof -
  let ?cs = "next_line b"
  note at = readable_line_at [OF assms]
  have len: "lastBol b + length ?cs < length (buffer b)" by (rule line_at_length [OF at])
  then have bk: "rd_back (buffer b) (length (buffer b)) 1 = Inr NL"
    using assms last_conv_nth [of "buffer b"]
    by (cases "buffer b = []") (auto simp: rd_back_def rd_def readable_def)
  have words: "words_ok (lastBol b) ?cs (lex_words sc (buffer b) (lastBol b) [] False) (lex_line ?cs)"
    using lex_words_refines [OF at, of sc "[]" None]
    by (simp add: lex_line_def option.map_ident)
  show ?thesis
  proof (cases "lex_line ?cs")
    case None
    then obtain j where j: "lastBol b \<le> j" "j \<le> lastBol b + length ?cs"
      and "lex_words sc (buffer b) (lastBol b) [] False = Inr (Malformed j)"
      using words by (auto simp: words_ok_def)
    then show ?thesis
      using assms(2) bk None lex_malformed_line [OF at j] lex_line_None_shape [OF None]
      by (simp add: Lex_at_def lex_result_def)
  next
    case (Some ws)
    then have "lex_words sc (buffer b) (lastBol b) [] False = Inr (Lexed (lastBol b + length ?cs + 1, ws))"
      using words by (simp add: words_ok_def)
    then show ?thesis
      using assms(2) bk Some by (simp add: Lex_at_def lex_result_def skip_line_def)
  qed
qed

lemma Lex_line:
  "readable b \<Longrightarrow> \<not> IsAtEnd b
   \<Longrightarrow> Lex b = Inr (fst (lex_result (next_line b)), snd (lex_result (next_line b)), skip_line b)"
  by (simp add: Lex_def Lex_at_line)

lemma Lex_at_end: "IsAtEnd b \<Longrightarrow> Lex_at sc b = Inr (ENOENT, [], b)"
  by (simp add: Lex_at_def)

section \<open>The signedness of plain char\<close>

lemma lex_hex_sign: "lex_hex sc buf i n v = lex_hex sc' buf i n v"
  by (induction n arbitrary: i v) (simp_all add: lex_hex_step cong: option.case_cong)

lemma lex_escape_sign: "lex_escape sc buf i = lex_escape sc' buf i"
  unfolding lex_escape_def by (subst lex_hex_sign [of sc _ _ _ _ sc']) (rule refl)

lemma lex_quoted_step:
  "lex_quoted sc buf i r =
     bind_res (rd buf i) (\<lambda>c.
       if c = NL \<or> uchar c < 32 \<or> 127 \<le> uchar c then Inr (Malformed i)
       else if c = APOS then Inr (Lexed (i + 1, r))
       else if c = BSLASH then
         on_lexed (lex_escape sc buf (i + 1)) (\<lambda>(j, c). lex_quoted sc buf j (push_last c r))
       else lex_quoted sc buf (i + 1) (push_last c r))"
  by (subst lex_quoted.simps) (auto simp: char_val_tests intro!: bind_res_cong)

lemma lex_quoted_sign: "lex_quoted sc buf i r = lex_quoted sc' buf i r"
proof (induction "length buf - i" arbitrary: i r rule: less_induct)
  case less
  have IH: "i < length buf \<Longrightarrow> Suc i \<le> a \<Longrightarrow> lex_quoted sc buf a q = lex_quoted sc' buf a q" for a q
    using less.hyps [of a q] diff_less_mono2 [of i a "length buf"] by linarith
  show ?case
    by (subst (1 2) lex_quoted_step)
      (auto simp: lex_escape_sign [of sc _ _ sc'] rd_Inr intro!: bind_res_cong on_lexed_cong IH
        dest!: lex_escape_forward)
qed

lemma lex_words_step:
  "lex_words sc buf i r word =
     bind_res (rd buf i) (\<lambda>c.
       if c = SPC \<or> c = TAB then lex_words sc buf (i + 1) r False
       else if c = NL then Inr (Lexed (i + 1, r))
       else if c = CONTINUE then
         (if word then Inr (Malformed (i + 1))
          else bind_res (rd buf (i + 1)) (\<lambda>d.
            if d \<noteq> NL then Inr (Malformed (i + 1)) else Inr (Lexed (i + 1 + 1, r))))
       else if uchar c \<le> 32 \<or> 127 \<le> uchar c then Inr (Malformed (i + 1))
       else
         let r = (if \<not> word then r @ [[]] else r) in
         if c = APOS then
           on_lexed (lex_quoted sc buf (i + 1) r) (\<lambda>(j, r). lex_words sc buf j r True)
         else lex_words sc buf (i + 1) (push_last c r) True)"
proof -
  have "char_val sc SPC = 32" by simp
  then show ?thesis by (subst lex_words.simps) (simp only: Let_def char_val_tests)
qed

lemma lex_words_sign: "lex_words sc buf i r word = lex_words sc' buf i r word"
proof (induction "length buf - i" arbitrary: i r word rule: less_induct)
  case less
  have IH: "i < length buf \<Longrightarrow> Suc i \<le> a \<Longrightarrow> lex_words sc buf a q w = lex_words sc' buf a q w" for a q w
    using less.hyps [of a q w] diff_less_mono2 [of i a "length buf"] by linarith
  show ?case
    by (subst (1 2) lex_words_step)
      (auto simp: lex_quoted_sign [of sc _ _ _ sc'] rd_Inr Let_def intro!: bind_res_cong on_lexed_cong IH
        dest!: lex_quoted_forward)
qed

lemma Lex_sign: "Lex_at sc b = Lex_at sc' b"
  unfolding Lex_at_def by (subst lex_words_sign [of sc _ _ _ _ sc']) (rule refl)

section \<open>LexedLine\<close>

lemma lexed_bol_line:
  assumes "\<And>k. j \<le> k \<Longrightarrow> k < n \<Longrightarrow> buf ! k \<noteq> NL" and "0 < j \<Longrightarrow> buf ! (j - 1) = NL"
    and "j \<le> n" and "n \<le> length buf"
  shows "lexed_bol buf n = Inr j"
  using assms
proof (induction n)
  case (Suc n)
  show ?case
  proof (cases "j = Suc n")
    case True
    then show ?thesis using Suc.prems by (simp add: rd_def)
  next
    case False
    then show ?thesis using Suc.prems Suc.IH by (simp add: rd_def)
  qed
qed simp

text \<open>
  What \<open>LexedLine\<close> gives after the line \<open>next_line b\<close> has been lexed: its text without a
  continuation, except that for an empty line or a lone semicolon at the very beginning
  of the buffer the code looks at the character before the buffer.
\<close>

lemma LexedLine_line:
  assumes "readable b" and "\<not> IsAtEnd b"
  shows "LexedLine (skip_line b) str =
    (if lastBol b = 0 \<and> (next_line b = [] \<or> next_line b = [CONTINUE]) then Inl OutOfRange
     else Inr (str @ strip_cont (next_line b)))"
proof -
  let ?cs = "next_line b" and ?i = "lastBol b" and ?buf = "buffer b"
  note at = readable_line_at [OF assms]
  have len: "?i + length ?cs < length ?buf" by (rule line_at_length [OF at])
  have prev: "0 < ?i \<Longrightarrow> ?buf ! (?i - 1) = NL" using assms(1) by (simp add: readable_def)
  obtain post where post: "drop ?i ?buf = ?cs @ NL # post" using at by (auto simp: line_at_def)
  have nth: "?buf ! (?i + k) = ?cs ! k" if "k < length ?cs" for k
  proof -
    have "?buf ! (?i + k) = drop ?i ?buf ! k" using len by simp
    then show ?thesis using that by (simp only: post nth_append_left)
  qed
  have bol: "lexed_bol ?buf (?i + length ?cs) = Inr ?i"
  proof (rule lexed_bol_line)
    fix k assume "?i \<le> k" "k < ?i + length ?cs"
    then have "?buf ! k = ?cs ! (k - ?i)" using nth [of "k - ?i"] by simp
    moreover have "NL \<notin> set ?cs" using at by (simp add: line_at_def)
    ultimately show "?buf ! k \<noteq> NL"
      using \<open>?i \<le> k\<close> \<open>k < ?i + length ?cs\<close> by (metis add_less_cancel_left le_add_diff_inverse nth_mem)
  qed (use prev len in auto)
  have take: "take n (drop ?i ?buf) = take n ?cs" if "n \<le> length ?cs" for n
    using at that by (auto simp: line_at_def)
  have LL: "LexedLine (skip_line b) str =
      bind_res (rd_back ?buf (?i + length ?cs) 1) (\<lambda>c1.
      bind_res (if c1 = CONTINUE then bind_res (rd_back ?buf (?i + length ?cs) 2) (\<lambda>c2. Inr (c2 = SPC))
                else Inr False) (\<lambda>cont.
      let end = (if cont then ?i + length ?cs - 2 else ?i + length ?cs) in
      if end < ?i then Inl OutOfRange else Inr (str @ take (end - ?i) (drop ?i ?buf))))"
    using bol by (simp add: LexedLine_def skip_line_def Let_def cong: if_cong)
  consider (none) "?cs = []" | (one) c where "?cs = [c]" | (more) "2 \<le> length ?cs"
    by (cases ?cs rule: remdups_adj.cases) auto
  then show ?thesis
  proof cases
    case none
    have "rd_back ?buf ?i 1 = (if ?i = 0 then Inl OutOfRange else Inr NL)"
      using prev len by (auto simp: rd_back_def rd_def)
    then show ?thesis unfolding LL using none by (simp add: strip_cont_short Let_def)
  next
    case one
    have "rd_back ?buf (?i + 1) 1 = Inr c"
      using line_at_back [OF at, of 1] one by simp
    moreover have "rd_back ?buf (?i + 1) 2 = (if ?i = 0 then Inl OutOfRange else Inr NL)"
      using prev len by (auto simp: rd_back_def rd_def)
    ultimately show ?thesis
      unfolding LL using one take [of 1]
      by (cases "?i = 0") (simp_all add: strip_cont_short Let_def cong: if_cong)
  next
    case more
    have "rd_back ?buf (?i + length ?cs) 1 = Inr (?cs ! (length ?cs - 1))"
      "rd_back ?buf (?i + length ?cs) 2 = Inr (?cs ! (length ?cs - 2))"
      using line_at_back [OF at, of 1] line_at_back [OF at, of 2] more by auto
    then show ?thesis
      unfolding LL using more take by (auto simp: strip_cont_eq Let_def)
  qed
qed

end
