(* ===== verification/RoundTrip.thy ===== *)
theory RoundTrip
  imports LexCorrect
begin

text \<open>
  The round trips between the writing and the lexing half of the message buffer: words,
  lines and whole blocks of ASCII text come back as they were written; a line with a
  character outside ASCII never does.
\<close>

section \<open>Words\<close>

definition ascii :: "char \<Rightarrow> bool" where
  "ascii c \<longleftrightarrow> uchar c < 128"

definition ascii_word :: "bytes \<Rightarrow> bool" where
  "ascii_word w \<longleftrightarrow> list_all ascii w"

lemma ascii_word_simps [simp]:
  "ascii_word []" "ascii_word (c # w) \<longleftrightarrow> ascii c \<and> ascii_word w"
  "ascii_word (v @ w) \<longleftrightarrow> ascii_word v \<and> ascii_word w"
  by (simp_all add: ascii_word_def)

lemma needs_quote_bounds:
  assumes "\<not> needs_quote c"
  shows "32 < uchar c" and "uchar c < 127" and "c \<noteq> CONTINUE" and "c \<noteq> APOS" and "c \<noteq> SPC"
    and "c \<noteq> TAB" and "c \<noteq> NL" and "ascii c"
  using assms by (auto simp: needs_quote_def uchar_def ascii_def)

text \<open>The two hexadecimal digits of an escape.\<close>

definition nib :: "nat \<Rightarrow> char" where
  "nib k = char_of (if k + 48 > 57 then k + 48 + (97 - (57 + 1)) else k + 48)"

lemma escape_nibbles_step:
  "0 < n \<Longrightarrow> escape_nibbles c n = nib (drop_bit (n - 4) c AND 15) # escape_nibbles c (n - 4)"
  by (cases n) (auto simp: nib_def Let_def)

lemma and_15: "m AND 15 = m mod (16 :: nat)"
  using take_bit_eq_mask [of 4 m] by (simp add: take_bit_eq_mod mask_eq_exp_minus_1 and.commute)

lemma escape_nibbles_8: "n < 256 \<Longrightarrow> escape_nibbles n 8 = [nib (n div 16), nib (n mod 16)]"
  by (simp add: escape_nibbles_step [of 8] escape_nibbles_step [of 4] and_15 drop_bit_eq_div)

lemma uchar_nib: "k < 16 \<Longrightarrow> uchar (nib k) = (if k < 10 then int k + 48 else int k + 87)"
  by (auto simp: nib_def uchar_char_of)

lemma hexval_nib: "k < 16 \<Longrightarrow> hexval (nib k) = Some k"
  by (auto simp: hexval_def uchar_nib)

lemma nib_neq:
  assumes "k < 16"
  shows "nib k \<noteq> BSLASH" "nib k \<noteq> APOS" "nib k \<noteq> CHR ''n''" "nib k \<noteq> CHR ''_''"
    "nib k \<noteq> CHR ''t''" "nib k \<noteq> NL"
  using assms uchar_nib [OF assms] by (auto split: if_splits)

lemma hi_nibble: "(of_char c :: nat) div 16 < 16"
  by (rule less_mult_imp_div_less) simp

text \<open>Escaping a character and reading the escape back.\<close>

lemma s_unesc_escape:
  assumes "needs_escape c"
  shows "s_unesc (escape_char c @ rest) = Some (c, rest)"
proof (cases "c = TAB \<or> c = NL \<or> c = APOS \<or> c = BSLASH")
  case True
  then show ?thesis by (auto simp: escape_char_def)
next
  case False
  let ?n = "of_char c :: nat"
  have n: "?n < 256" by simp
  have d: "?n div 16 < 16" "?n mod 16 < 16" by (simp_all add: hi_nibble)
  have "char_of (16 * (?n div 16) + ?n mod 16) = c" by simp
  then show ?thesis
    using False d by (simp add: escape_char_def escape_nibbles_8 [OF n] nib_neq hexval_nib)
qed

lemma esc_ascii: "needs_escape c \<Longrightarrow> ascii c"
  by (auto simp: needs_escape_def ascii_def)

lemma s_quoted_esc:
  "s_quoted (concat (map esc w) @ APOS # rest) = (if ascii_word w then Some (w, rest) else None)"
proof (induction w)
  case (Cons c w)
  show ?case
  proof (cases "needs_escape c")
    case True
    have "s_quoted (concat (map esc (c # w)) @ APOS # rest)
        = s_quoted (BSLASH # escape_char c @ concat (map esc w) @ APOS # rest)"
      using True by (simp add: esc_def)
    also have "\<dots> = map_option (\<lambda>(v, r). (c # v, r)) (s_quoted (concat (map esc w) @ APOS # rest))"
      by (simp add: s_unesc_escape [OF True])
    finally show ?thesis using Cons esc_ascii [OF True] by simp
  next
    case False
    have "s_quoted (concat (map esc (c # w)) @ APOS # rest)
        = s_quoted (c # concat (map esc w) @ APOS # rest)"
      using False by (simp add: esc_def)
    also have "\<dots> = (if ascii c
        then map_option (\<lambda>(v, r). (c # v, r)) (s_quoted (concat (map esc w) @ APOS # rest)) else None)"
      using False by (auto simp: needs_escape_def ascii_def)
    finally show ?thesis using Cons by simp
  qed
qed simp

lemma s_words_safe:
  "list_all (\<lambda>c. \<not> needs_quote c) w \<Longrightarrow> w \<noteq> []
   \<Longrightarrow> s_words (w @ rest) cur = s_words rest (Some (so_far cur @ w))"
proof (induction w arbitrary: cur)
  case (Cons c w)
  then have "s_words ((c # w) @ rest) cur = s_words (w @ rest) (Some (so_far cur @ [c]))"
    using needs_quote_bounds [of c] by auto
  then show ?case using Cons by (cases "w = []") auto
qed simp

lemma s_words_enc:
  "s_words (enc_word w @ rest) None = (if ascii_word w then s_words rest (Some w) else None)"
proof (cases "safe_word w")
  case True
  then have "ascii_word w"
    using needs_quote_bounds(8) by (auto simp: safe_word_def ascii_word_def list_all_iff)
  then show ?thesis
    using True s_words_safe [of w rest None] by (simp add: enc_word_def safe_word_def list_all_iff)
next
  case False
  then show ?thesis using s_quoted_esc [of w rest] by (simp add: enc_word_def)
qed

section \<open>Lines\<close>

lemma enc_line_Cons:
  "enc_line (w # ws) = enc_word w @ (if ws = [] then [] else SPC # enc_line ws)"
  by (simp add: enc_line_def join_sep_Cons)

definition line_tail :: "bool \<Rightarrow> bytes" where
  "line_tail cnt = (if cnt then [SPC, CONTINUE] else [])"

lemma lex_line_enc:
  assumes "ws \<noteq> []"
  shows "lex_line (enc_line ws @ line_tail cnt) = (if list_all ascii_word ws then Some ws else None)"
  using assms unfolding lex_line_def
proof (induction ws)
  case (Cons w ws)
  show ?case
  proof (cases "ws = []")
    case True
    then show ?thesis by (simp add: enc_line_Cons s_words_enc line_tail_def)
  next
    case False
    then show ?thesis using Cons.IH by (auto simp: enc_line_Cons s_words_enc)
  qed
qed simp

lemma NL_enc_word: "NL \<notin> set (enc_word w)"
proof -
  have "NL \<notin> set (esc c)" for c
  proof (cases "c = TAB \<or> c = NL \<or> c = APOS \<or> c = BSLASH \<or> \<not> needs_escape c")
    case True
    then show ?thesis by (auto simp: esc_def escape_char_def needs_escape_def)
  next
    case False
    have "(of_char c :: nat) < 256" by simp
    then show ?thesis
      using False nib_neq(6) [OF hi_nibble [of c]] nib_neq(6) [of "of_char c mod 16"]
      by (auto simp: esc_def escape_char_def escape_nibbles_8)
  qed
  then show ?thesis
    using needs_quote_bounds(7) by (auto simp: enc_word_def safe_word_def)
qed

lemma NL_enc_line: "NL \<notin> set (enc_line ws)"
  using set_join_sep [of "[SPC]" "map enc_word ws"] NL_enc_word by (auto simp: enc_line_def)

text \<open>An encoded line ends with a character that cannot be taken for a continuation.\<close>

lemma last_enc_word: "last (enc_word w) \<noteq> CONTINUE"
  using needs_quote_bounds(3) [of "last w"] last_in_set [of w]
  by (auto simp: enc_word_def safe_word_def)

lemma last_enc_line: "ws \<noteq> [] \<Longrightarrow> last (enc_line ws) \<noteq> CONTINUE"
  by (induction ws rule: rev_induct) (auto simp: enc_line_snoc last_enc_word)

lemma plain_enc_line [simp]: "plain_line (enc_line ws) \<longleftrightarrow> ws \<noteq> []"
  by (auto simp: plain_line_def NL_enc_line last_enc_line)

lemma plain_enc_lines: "list_all plain_line (map enc_line ls) \<longleftrightarrow> [] \<notin> set ls"
  by (auto simp: list_all_iff)

lemma holds_block_lines: "holds_block ls b \<longleftrightarrow> holds_lines (map enc_line ls) b"
  by (simp add: holds_block_def holds_lines_def enc_block_def plain_enc_lines)

lemma strip_cont_plain:
  assumes "plain_line l"
  shows "strip_cont (l @ line_tail cnt) = l"
proof (cases cnt)
  case True
  then show ?thesis by (simp add: strip_cont_def line_tail_def)
next
  case False
  have "l ! (length l - 1) \<noteq> CONTINUE" using assms last_conv_nth [of l] by (simp add: plain_line_def)
  then show ?thesis
    using False strip_cont_eq [of l] strip_cont_short [of l] by (cases "2 \<le> length l") (auto simp: line_tail_def)
qed

text \<open>
  A line of any text, such as an \<open>INVOKE\<close>, whose arguments are not quoted, may be malformed;
  whether it is, and which words it has, does not depend on a continuation after it.
\<close>

lemma hexval_SPC [simp]: "hexval SPC = None"
  by (simp add: hexval_def uchar_def)

lemma s_hex_tail: "s_hex (cs @ [SPC, CONTINUE]) = map_option (\<lambda>(d, ds). (d, ds @ [SPC, CONTINUE])) (s_hex cs)"
  by (induction cs rule: s_hex.induct) (auto split: option.split)

lemma s_unesc_tail: "s_unesc (cs @ [SPC, CONTINUE]) = map_option (\<lambda>(d, ds). (d, ds @ [SPC, CONTINUE])) (s_unesc cs)"
  using s_hex_tail [of cs] by (cases cs) auto

lemma s_quoted_tail:
  "s_quoted (cs @ [SPC, CONTINUE]) = map_option (\<lambda>(w, rest). (w, rest @ [SPC, CONTINUE])) (s_quoted cs)"
proof (induction cs rule: s_quoted.induct)
  case (2 c cs)
  then show ?case
    by (auto simp: s_unesc_tail option.map_comp comp_def case_prod_beta split: option.split)
qed (simp add: uchar_def)

text \<open>What is left after an escape or a quoted run is the end of the text.\<close>

lemma s_hex_rest: "s_hex cs = Some (d, ds) \<Longrightarrow> \<exists>u. cs = u @ ds"
  by (induction cs rule: s_hex.induct) (fastforce split: option.splits)+

lemma s_unesc_rest: "s_unesc cs = Some (d, ds) \<Longrightarrow> \<exists>u. cs = u @ ds"
  by (cases cs) (fastforce split: if_splits dest: s_hex_rest)+

lemma s_quoted_rest: "s_quoted cs = Some (w, rest) \<Longrightarrow> \<exists>u. cs = u @ rest"
proof (induction cs arbitrary: w rule: s_quoted.induct)
  case (2 c cs)
  consider "c = BSLASH" | "c = APOS" | "c \<noteq> BSLASH" "c \<noteq> APOS" by blast
  then show ?case
  proof cases
    case 1
    then obtain d ds v where u: "s_unesc cs = Some (d, ds)" "s_quoted ds = Some (v, rest)"
      using "2.prems" by (auto split: if_splits option.splits)
    moreover obtain us where "cs = us @ ds" using s_unesc_rest [OF u(1)] by blast
    moreover obtain vs where "ds = vs @ rest" using "2.IH"(1) [of "(d, ds)" d ds v] u "2.prems" 1 by (auto split: if_splits)
    ultimately show ?thesis by (intro exI [of _ "c # us @ vs"]) simp
  next
    case 2
    then show ?thesis using "2.prems" by (auto split: if_splits intro: exI [of _ "[c]"])
  next
    case 3
    then obtain v where "s_quoted cs = Some (v, rest)" using "2.prems" by (auto split: if_splits)
    then obtain us where "cs = us @ rest" using "2.IH"(2) [of v] "2.prems" 3 by (auto split: if_splits)
    then show ?thesis by (intro exI [of _ "c # us"]) simp
  qed
qed simp

lemma s_words_tail:
  "cs = [] \<or> last cs \<noteq> CONTINUE \<Longrightarrow> s_words (cs @ [SPC, CONTINUE]) cur = s_words cs cur"
proof (induction cs cur rule: s_words.induct)
  case (2 c cs cur)
  consider "c = SPC \<or> c = TAB" | "c = CONTINUE" | "c \<noteq> CONTINUE" "c \<noteq> SPC" "c \<noteq> TAB" "uchar c \<le> 32 \<or> 127 \<le> uchar c"
    | "c = APOS" | "\<not> (c = SPC \<or> c = TAB)" "c \<noteq> CONTINUE" "\<not> (uchar c \<le> 32 \<or> 127 \<le> uchar c)" "c \<noteq> APOS" by blast
  then show ?case
  proof cases
    case 1
    have "cs = [] \<or> last cs \<noteq> CONTINUE" using "2.prems" by auto
    from "2.IH"(1) [OF 1 this] show ?thesis using 1 by auto
  next
    case 2
    then show ?thesis using "2.prems" by auto
  next
    case 3
    then show ?thesis by simp
  next
    case 4
    show ?thesis
    proof (cases "s_quoted cs")
      case (Some p)
      obtain w rest where p: "p = (w, rest)" by (cases p)
      obtain u where "cs = u @ rest" using s_quoted_rest Some p by blast
      then have last: "rest = [] \<or> last rest \<noteq> CONTINUE" using "2.prems" by auto
      have c: "c \<noteq> SPC" "c \<noteq> TAB" "c \<noteq> CONTINUE" "\<not> (uchar c \<le> 32 \<or> 127 \<le> uchar c)" using 4 by (simp_all add: uchar_def)
      then have "s_words (rest @ [SPC, CONTINUE]) (Some (so_far cur @ w)) = s_words rest (Some (so_far cur @ w))"
        by (intro "2.IH"(2) [OF _ _ _ 4 Some p [symmetric] last]) simp_all
      then show ?thesis using Some p 4 c by (simp add: s_quoted_tail)
    qed (use 4 in \<open>simp add: s_quoted_tail\<close>)
  next
    case 5
    have "cs = [] \<or> last cs \<noteq> CONTINUE" using "2.prems" by auto
    from "2.IH"(3) [OF 5 this] show ?thesis using 5 by simp
  qed
qed simp

lemma lex_line_plain: "plain_line l \<Longrightarrow> lex_line (l @ line_tail cnt) = lex_line l"
  using s_words_tail [of l None] by (simp add: plain_line_def line_tail_def lex_line_def)

definition line_result :: "bytes list \<Rightarrow> int \<times> bytes list" where
  "line_result ws = (if list_all ascii_word ws then (0, ws) else (EINVAL, [enc_line ws]))"

lemma lex_result_enc: "ws \<noteq> [] \<Longrightarrow> lex_result (enc_line ws @ line_tail cnt) = line_result ws"
  by (simp add: lex_result_def lex_line_enc strip_cont_plain line_result_def)

section \<open>Blocks\<close>

text \<open>
  The decoding loop every user of the buffer has (\<open>while (!IsAtEnd ()) Lex (words)\<close>):
  the results of \<open>Lex\<close>, in order. It ends on any buffer, because \<open>Lex\<close> always moves
  forward.
\<close>

lemma lex_words_forward: "lex_words sc buf i r w = Inr (Lexed (j, r')) \<Longrightarrow> i < j \<and> j \<le> length buf"
proof (induction "length buf - i" arbitrary: i r w rule: less_induct)
  case less
  have IH: "i < length buf \<Longrightarrow> Suc i \<le> a \<Longrightarrow> lex_words sc buf a q v = Inr (Lexed (j, r')) \<Longrightarrow> i < j \<and> j \<le> length buf"
    for a q v
    using less.hyps [of a q v] diff_less_mono2 [of i a "length buf"] by linarith
  from less.prems show ?case
    by (subst (asm) lex_words_step)
      (auto simp: bind_res_eq_Inr on_lexed_eq_Lexed rd_Inr Let_def split: if_splits
        dest!: lex_quoted_forward dest: IH IH [OF _ less_imp_le])
qed

lemma lex_words_Inr: "lex_words sc buf i r w = Inr x \<Longrightarrow> i < length buf"
  by (subst (asm) lex_words_step) (auto simp: bind_res_eq_Inr rd_Inr)

lemma lex_malformed_forward:
  assumes "lex_malformed b i = Inr (e, ws, b')"
  shows "lastBol b < lastBol b' \<and> buffer b' = buffer b"
proof -
  let ?e = "find_from NL (buffer b) i"
  from assms obtain smells where
    "(if (if smells then ?e - 2 else ?e) < lastBol b \<or> length (buffer b) < ?e + 1 then Inl OutOfRange
      else Inr (EINVAL, [take ((if smells then ?e - 2 else ?e) - lastBol b) (drop (lastBol b) (buffer b))],
                b\<lparr>lastBol := ?e + 1\<rparr>)) = Inr (e, ws, b')"
    unfolding lex_malformed_def Let_def bind_res_eq_Inr by blast
  then show ?thesis by (cases smells) (auto split: if_split_asm)
qed

lemma Lex_forward:
  assumes "Lex b = Inr (e, ws, b')" and "\<not> IsAtEnd b"
  shows "lastBol b < lastBol b' \<and> buffer b' = buffer b \<and> lastBol b < length (buffer b)"
proof -
  from assms obtain r where r: "lex_words True (buffer b) (lastBol b) [] False = Inr r"
    and k: "(case r of Malformed i \<Rightarrow> lex_malformed b i
       | Lexed (i, ws) \<Rightarrow> Inr (if ws = [] then ENOENT else 0, ws, b\<lparr>lastBol := i\<rparr>)) = Inr (e, ws, b')"
    unfolding Lex_def Lex_at_def bind_res_eq_Inr by (auto simp: bind_res_eq_Inr split: if_split_asm)
  have "lastBol b < length (buffer b)" by (rule lex_words_Inr [OF r])
  moreover have "lastBol b < lastBol b' \<and> buffer b' = buffer b"
  proof (cases r)
    case (Malformed i)
    then show ?thesis using k by (simp add: lex_malformed_forward)
  next
    case (Lexed p)
    then show ?thesis using k r by (cases p) (auto dest: lex_words_forward)
  qed
  ultimately show ?thesis by blast
qed

function lex_rest :: "MessageBuffer \<Rightarrow> (int \<times> bytes list) list res" where
  "lex_rest b =
     (if IsAtEnd b then Inr []
      else bind_res (Lex b) (\<lambda>(e, ws, b').
        bind_res (lex_rest b') (\<lambda>rs. Inr ((e, ws) # rs))))"
  by pat_completeness auto
termination
proof (relation "measure (\<lambda>b. length (buffer b) - lastBol b)")
  fix b x e y ws b'
  assume "\<not> IsAtEnd b" "Lex b = Inr x" "(e, y) = x" "(ws, b') = y"
  then have "Lex b = Inr (e, ws, b')" by simp
  from Lex_forward [OF this \<open>\<not> IsAtEnd b\<close>]
  show "(b', b) \<in> measure (\<lambda>b. length (buffer b) - lastBol b)"
    using diff_less_mono2 [of "lastBol b" "lastBol b'" "length (buffer b)"] by simp
qed simp

declare lex_rest.simps [simp del]

lemma lex_rest_end [simp]: "IsAtEnd b \<Longrightarrow> lex_rest b = Inr []"
  by (simp add: lex_rest.simps)

lemma lex_rest_line:
  "readable b \<Longrightarrow> \<not> IsAtEnd b
   \<Longrightarrow> lex_rest b = bind_res (lex_rest (skip_line b)) (\<lambda>rs. Inr (lex_result (next_line b) # rs))"
  by (subst lex_rest.simps) (simp add: Lex_line)

text \<open>Decoding never goes out of range on a buffer of complete lines, whatever they hold.\<close>

lemma lex_rest_total: "readable b \<Longrightarrow> \<exists>rs. lex_rest b = Inr rs"
proof (induction "length (buffer b) - lastBol b" arbitrary: b rule: less_induct)
  case less
  show ?case
  proof (cases "IsAtEnd b")
    case False
    then have "lastBol b < length (buffer b)" using less.prems by (simp add: readable_def IsAtEnd_def)
    then have "\<exists>rs. lex_rest (skip_line b) = Inr rs"
      using less.prems False by (intro less.hyps skip_line_readable) (simp_all add: skip_line_def)
    then show ?thesis using lex_rest_line [OF less.prems False] by auto
  qed simp
qed

text \<open>
  The lines \<open>ls\<close> that are left of a block, at the beginning of one of them; \<open>pre\<close> is the part
  that has been lexed before. \<open>remaining\<close> is the same for lines of words.
\<close>

definition left_lines :: "bytes list \<Rightarrow> MessageBuffer \<Rightarrow> bool" where
  "left_lines ls b \<longleftrightarrow> list_all plain_line ls
     \<and> (\<exists>pre. (pre = [] \<or> last pre = NL) \<and> lastBol b = length pre
          \<and> buffer b = pre @ (if ls = [] then [] else text_block ls @ [NL]))"

definition remaining :: "bytes list list \<Rightarrow> MessageBuffer \<Rightarrow> bool" where
  "remaining ls b \<longleftrightarrow> [] \<notin> set ls
     \<and> (\<exists>pre. (pre = [] \<or> last pre = NL) \<and> lastBol b = length pre
          \<and> buffer b = pre @ (if ls = [] then [] else enc_block ls @ [NL]))"

lemma remaining_left: "remaining ls b \<longleftrightarrow> [] \<notin> set ls \<and> left_lines (map enc_line ls) b"
  by (auto simp: remaining_def left_lines_def enc_block_def plain_enc_lines)

lemma left_lines_end: "left_lines [] b \<Longrightarrow> IsAtEnd b"
  by (auto simp: left_lines_def IsAtEnd_def)

lemma left_lines_readable: "left_lines ls b \<Longrightarrow> readable b"
  by (cases ls) (auto simp: left_lines_def readable_def nth_append last_conv_nth)

lemma left_lines_not_end: "left_lines (l # ls) b \<Longrightarrow> \<not> IsAtEnd b"
  by (auto simp: left_lines_def IsAtEnd_def)

lemma left_lines_line:
  assumes "left_lines (l # ls) b"
  shows "next_line b = l @ line_tail (ls \<noteq> [])"
proof -
  obtain pre rest where b: "lastBol b = length pre" "buffer b = pre @ (l @ line_tail (ls \<noteq> [])) @ NL # rest"
    using assms by (cases "ls = []") (auto simp: left_lines_def text_block_Cons line_tail_def continuation_def)
  have "NL \<notin> set (l @ line_tail (ls \<noteq> []))" using assms by (auto simp: left_lines_def plain_line_def line_tail_def)
  from takeWhile_hit [OF this, of rest] b show ?thesis by (simp add: next_line_def)
qed

lemma left_lines_skip:
  assumes "left_lines (l # ls) b"
  shows "left_lines ls (skip_line b)"
proof -
  from assms obtain pre where p: "lastBol b = length pre" "pre = [] \<or> last pre = NL"
    "buffer b = pre @ text_block (l # ls) @ [NL]" by (auto simp: left_lines_def)
  let ?pre = "pre @ l @ line_tail (ls \<noteq> []) @ [NL]"
  have "buffer (skip_line b) = ?pre @ (if ls = [] then [] else text_block ls @ [NL])"
    using p(3) by (auto simp: text_block_Cons continuation_def line_tail_def)
  moreover have "lastBol (skip_line b) = length ?pre"
    using p(1) left_lines_line [OF assms] by (simp add: skip_line_def)
  ultimately show ?thesis
    using assms unfolding left_lines_def by (intro conjI exI [of _ ?pre]) auto
qed

lemma remaining_end [simp]: "remaining [] b \<Longrightarrow> IsAtEnd b"
  by (simp add: remaining_left left_lines_end)

lemma remaining_readable: "remaining ls b \<Longrightarrow> readable b"
  by (auto simp: remaining_left intro: left_lines_readable)

lemma remaining_not_end: "remaining (ws # ls) b \<Longrightarrow> \<not> IsAtEnd b"
  by (auto simp: remaining_left dest: left_lines_not_end)

lemma remaining_line: "remaining (ws # ls) b \<Longrightarrow> next_line b = enc_line ws @ line_tail (ls \<noteq> [])"
  using left_lines_line [of "enc_line ws" "map enc_line ls" b] by (simp add: remaining_left)

lemma remaining_skip: "remaining (ws # ls) b \<Longrightarrow> remaining ls (skip_line b)"
  using left_lines_skip [of "enc_line ws" "map enc_line ls" b] by (simp add: remaining_left)

lemma lex_rest_remaining: "remaining ls b \<Longrightarrow> lex_rest b = Inr (map line_result ls)"
proof (induction ls arbitrary: b)
  case (Cons ws ls)
  have "ws \<noteq> []" using Cons.prems by (auto simp: remaining_def)
  then show ?case
    using Cons.IH [OF remaining_skip [OF Cons.prems]] lex_rest_line [OF remaining_readable remaining_not_end]
      Cons.prems remaining_line [OF Cons.prems] lex_result_enc [of ws "ls \<noteq> []"]
    by simp
qed (simp add: remaining_end)

lemma PrepareToWrite_remaining:
  "holds_block ls b \<Longrightarrow> ls \<noteq> [] \<Longrightarrow> remaining ls (PrepareToWrite b)"
  by (auto simp: holds_block_def remaining_def PrepareToWrite_def)

lemma PrepareToWrite_left:
  "holds_lines ls b \<Longrightarrow> ls \<noteq> [] \<Longrightarrow> left_lines ls (PrepareToWrite b)"
  by (auto simp: holds_lines_def left_lines_def PrepareToWrite_def)

end
