(* ===== verification/BufferIO.thy ===== *)
theory BufferIO
  imports RoundTrip
begin

text \<open>
  The I/O half of \<open>Detail::MessageBuffer\<close>: \<open>Write\<close> and \<open>Read\<close>, one system call each, and
  the retry loops around them. The operating system's answers are parameters: what
  \<open>write(2)\<close> or \<open>read(2)\<close> returned for the call. The results are that the retry loops
  transport a block unchanged, however the system splits it.
\<close>

section \<open>Write\<close>

text \<open>The return of \<open>write (fd, data, limit)\<close>: a count, or -1 with \<open>errno\<close> set.\<close>

datatype write_ret = Wrote nat | WriteErr int

text \<open>
  \<open>Write\<close> returns its result, the bytes the system accepted, and the buffer; the
  message is dropped on completion and on every error other than EAGAIN and EINTR.
\<close>

definition Write :: "write_ret \<Rightarrow> MessageBuffer \<Rightarrow> int \<times> bytes \<times> MessageBuffer" where
  "Write ret b =
     (let limit = length (buffer b) - lastBol b;
          (err, sent, b) =
            (case ret of
               WriteErr errno \<Rightarrow> (errno, [], b)
             | Wrote count \<Rightarrow>
                 (if count \<noteq> limit then EAGAIN else 0, take count (drop (lastBol b) (buffer b)),
                  b\<lparr>lastBol := lastBol b + count\<rparr>))
      in (err, sent,
          if err \<noteq> EAGAIN \<and> err \<noteq> EINTR then b\<lparr>buffer := [], lastBol := 0\<rparr> else b))"

text \<open>
  The loop \<open>while (int e = Write (fd)) if (e != EAGAIN && e != EINTR) return e;\<close> over the
  system's successive answers. When they run out the loop is still retrying.
\<close>

fun write_all :: "write_ret list \<Rightarrow> MessageBuffer \<Rightarrow> (int \<times> bytes \<times> MessageBuffer \<times> write_ret list) res" where
  "write_all [] b = Inl Diverges"
| "write_all (r # rs) b =
     (let (e, sent, b) = Write r b in
      if e = 0 then Inr (0, sent, b, rs)
      else if e \<noteq> EAGAIN \<and> e \<noteq> EINTR then Inr (e, sent, b, rs)
      else bind_res (write_all rs b) (\<lambda>(e, sent', b, rs). Inr (e, sent @ sent', b, rs)))"

text \<open>
  A run of \<open>write(2)\<close> that finally takes all of \<open>n\<close> bytes: no call takes need_more than it
  was offered, and the only errors are the two that ask for a retry.
\<close>

fun takes_all :: "nat \<Rightarrow> write_ret list \<Rightarrow> bool" where
  "takes_all n [] = False"
| "takes_all n (WriteErr e # rs) = ((e = EAGAIN \<or> e = EINTR) \<and> takes_all n rs)"
| "takes_all n (Wrote k # rs) = (k \<le> n \<and> (k = n \<or> takes_all (n - k) rs))"

lemma write_all_takes_all:
  "takes_all (length (buffer b) - lastBol b) rs
   \<Longrightarrow> \<exists>rest. write_all rs b = Inr (0, drop (lastBol b) (buffer b), empty_buffer, rest)"
proof (induction "length (buffer b) - lastBol b" rs arbitrary: b rule: takes_all.induct)
  case (2 e rs)
  then obtain rest where "write_all rs b = Inr (0, drop (lastBol b) (buffer b), empty_buffer, rest)"
    by fastforce
  then show ?case using "2.prems" by (auto simp: Write_def)
next
  case (3 k rs)
  show ?case
  proof (cases "k = length (buffer b) - lastBol b")
    case True
    then show ?thesis by (simp add: Write_def empty_buffer_def)
  next
    case False
    let ?b = "b\<lparr>lastBol := lastBol b + k\<rparr>"
    have "takes_all (length (buffer ?b) - lastBol ?b) rs" and k: "k \<le> length (buffer b) - lastBol b"
      using "3.prems" False by (auto simp: diff_diff_left)
    then obtain rest where "write_all rs ?b = Inr (0, drop (lastBol ?b) (buffer ?b), empty_buffer, rest)"
      using "3.hyps" [of ?b] False by auto
    then show ?thesis
      using False append_take_drop_id [of k "drop (lastBol b) (buffer b)"]
      by (simp add: Write_def add.commute)
  qed
qed simp

text \<open>Whatever the system answers, what it has accepted is a prefix of the message, in order.\<close>

fun honest_writes :: "nat \<Rightarrow> write_ret list \<Rightarrow> bool" where
  "honest_writes n [] = True"
| "honest_writes n (WriteErr e # rs) = (0 < e \<and> honest_writes n rs)"
| "honest_writes n (Wrote k # rs) = (k \<le> n \<and> honest_writes (n - k) rs)"

lemma write_all_prefix:
  "honest_writes (length (buffer b) - lastBol b) rs \<Longrightarrow> write_all rs b = Inr (e, sent, b', rest)
   \<Longrightarrow> b' = empty_buffer \<and> (\<exists>unsent. drop (lastBol b) (buffer b) = sent @ unsent \<and> (e = 0 \<longrightarrow> unsent = []))"
proof (induction "length (buffer b) - lastBol b" rs arbitrary: b e sent b' rest rule: honest_writes.induct)
  case (2 er rs)
  then show ?case
    by (auto simp: Write_def empty_buffer_def bind_res_eq_Inr split: if_splits)
next
  case (3 k rs)
  let ?b = "b\<lparr>lastBol := lastBol b + k\<rparr>" and ?d = "drop (lastBol b) (buffer b)"
  have k: "k \<le> length (buffer b) - lastBol b"
    and h: "honest_writes (length (buffer ?b) - lastBol ?b) rs"
    using "3.prems" by (auto simp: diff_diff_left)
  show ?case
  proof (cases "k = length (buffer b) - lastBol b")
    case True
    then show ?thesis using "3.prems" by (auto simp: Write_def empty_buffer_def)
  next
    case False
    then obtain sent' where "write_all rs ?b = Inr (e, sent', b', rest)" and s: "sent = take k ?d @ sent'"
      using "3.prems"(2) by (auto simp: Write_def bind_res_eq_Inr)
    from "3.hyps" [OF _ h this(1)] obtain unsent
      where "b' = empty_buffer" "drop k ?d = sent' @ unsent" "e = 0 \<longrightarrow> unsent = []"
      by (auto simp: add.commute)
    then show ?thesis using s append_take_drop_id [of k ?d] by (metis append_assoc)
  qed
qed simp

section \<open>Read\<close>

text \<open>The return of \<open>read (fd, data, n)\<close>: the bytes (none at end of file), or \<open>errno\<close>.\<close>

datatype read_ret = Got bytes | ReadErr int

definition blockSize :: nat where
  "blockSize = 200"

text \<open>How many bytes \<open>Read\<close> asks for, given the capacity of the vector.\<close>

definition read_room :: "nat \<Rightarrow> MessageBuffer \<Rightarrow> nat" where
  "read_room capacity b =
     (let lwm = length (buffer b); hwm = capacity;
          hwm = (if hwm - lwm < blockSize div 2 then hwm + blockSize else hwm)
      in hwm - lwm)"

text \<open>The scan of the characters from \<open>iter\<close> on for the end of the block.\<close>

function read_scan :: "bytes \<Rightarrow> nat \<Rightarrow> bool \<Rightarrow> int \<times> bytes" where
  "read_scan buf iter need_more =
     (let newline = find_from NL buf iter in
      if \<not> newline < length buf then (if need_more then EAGAIN else 0, buf)
      else
        let need_more = (newline \<noteq> 0 \<and> buf ! (newline - 1) = CONTINUE);
            iter = newline + 1
        in if iter = length buf then (if need_more then EAGAIN else 0, buf)
           else if \<not> need_more then (EINVAL, take iter buf)
           else read_scan buf iter need_more)"
  by pat_completeness auto
termination
  by (relation "measure (\<lambda>(buf, iter, need_more). length buf - iter)") (auto simp: find_from_def)

declare read_scan.simps [simp del]

definition Read :: "read_ret \<Rightarrow> MessageBuffer \<Rightarrow> int \<times> MessageBuffer" where
  "Read ret b =
     (let lwm = length (buffer b) in
      case ret of
        ReadErr errno \<Rightarrow> (errno, b)
      | Got cs \<Rightarrow>
          if cs = [] then (-1, b)
          else let (err, buf) = read_scan (buffer b @ cs) lwm True in (err, b\<lparr>buffer := buf\<rparr>))"

fun read_all :: "read_ret list \<Rightarrow> MessageBuffer \<Rightarrow> (int \<times> MessageBuffer \<times> read_ret list) res" where
  "read_all [] b = Inl Diverges"
| "read_all (r # rs) b =
     (let (e, b) = Read r b in
      if e = 0 then Inr (0, b, rs)
      else if e \<noteq> EAGAIN \<and> e \<noteq> EINTR then Inr (e, b, rs)
      else read_all rs b)"

text \<open>The request is never empty, so a result of 0 from the system does mean end of file.\<close>

lemma read_room_bounds:
  assumes "length (buffer b) \<le> capacity"
  shows "blockSize div 2 \<le> read_room capacity b" and "read_room capacity b \<le> capacity - length (buffer b) + blockSize"
  using assms by (auto simp: read_room_def blockSize_def Let_def)

section \<open>What Read recognises\<close>

text \<open>
  The reference: a block ends with its first newline that does not follow a semicolon.
  \<open>split_block p s\<close> is the block at the beginning of \<open>s\<close> and what follows it, if the
  block is complete; \<open>p\<close> says whether the character before \<open>s\<close> is a semicolon.
\<close>

fun split_block :: "bool \<Rightarrow> bytes \<Rightarrow> (bytes \<times> bytes) option" where
  "split_block p [] = None"
| "split_block p (c # cs) =
     (if c = NL \<and> \<not> p then Some ([c], cs)
      else map_option (\<lambda>(blk, rest). (c # blk, rest)) (split_block (c = CONTINUE) cs))"

definition ends_cont :: "bool \<Rightarrow> bytes \<Rightarrow> bool" where
  "ends_cont p s = (if s = [] then p else last s = CONTINUE)"

lemma ends_cont_simps [simp]:
  "ends_cont p [] = p" "ends_cont p (c # s) = ends_cont (c = CONTINUE) s"
  by (auto simp: ends_cont_def)

lemma split_block_append:
  "split_block p (u @ v) =
     (case split_block p u of
        Some (blk, rest) \<Rightarrow> Some (blk, rest @ v)
      | None \<Rightarrow> map_option (\<lambda>(blk, rest). (u @ blk, rest)) (split_block (ends_cont p u) v))"
  by (induction p u rule: split_block.induct)
    (auto simp: map_option_case split: option.splits)

lemma split_block_no_NL: "NL \<notin> set u \<Longrightarrow> split_block p u = None"
  by (induction p u rule: split_block.induct) auto

lemma split_block_parts: "split_block p s = Some (blk, rest) \<Longrightarrow> s = blk @ rest \<and> blk \<noteq> []"
  by (induction p s arbitrary: blk rule: split_block.induct) (auto split: if_splits)

lemma split_block_last: "split_block p s = Some (blk, rest) \<Longrightarrow> last blk = NL"
proof (induction p s arbitrary: blk rule: split_block.induct)
  case (2 p c cs)
  then show ?case by (auto split: if_splits dest: split_block_parts)
qed simp

lemma find_from_none: "NL \<notin> set v \<Longrightarrow> find_from NL (u @ v) (length u) = length (u @ v)"
proof -
  assume "NL \<notin> set v"
  then have "takeWhile (\<lambda>c. c \<noteq> NL) v = v" by (induction v) auto
  then show ?thesis by (simp add: find_from_def del: takeWhile_eq_all_conv)
qed

lemma read_scan_split:
  "read_scan (pre @ suf) (length pre) True =
     (case split_block (ends_cont False pre) suf of
        None \<Rightarrow> (EAGAIN, pre @ suf)
      | Some (blk, rest) \<Rightarrow> if rest = [] then (0, pre @ blk) else (EINVAL, pre @ blk))"
proof (induction "length suf" arbitrary: pre suf rule: less_induct)
  case less
  show ?case
  proof (cases "NL \<in> set suf")
    case False
    then show ?thesis
      by (subst read_scan.simps) (simp add: find_from_none split_block_no_NL)
  next
    case True
    then obtain u v where uv: "suf = u @ NL # v" "NL \<notin> set u" by (meson split_list_first)
    let ?nl = "length pre + length u" and ?pre = "pre @ u @ [NL]"
    have find: "find_from NL (pre @ suf) (length pre) = ?nl" by (simp add: uv)
    have cont: "(?nl \<noteq> 0 \<and> (pre @ suf) ! (?nl - 1) = CONTINUE) = ends_cont False (pre @ u)"
    proof (cases "pre @ u = []")
      case False
      then have "?nl - 1 < length (pre @ u)" by simp
      then have "(pre @ suf) ! (?nl - 1) = (pre @ u) ! (length (pre @ u) - 1)"
        unfolding uv append_assoc [symmetric] by (simp only: nth_append_left length_append)
      also have "\<dots> = last (pre @ u)" by (rule last_conv_nth [OF False, symmetric])
      finally show ?thesis using False by (auto simp: ends_cont_def)
    qed (simp add: ends_cont_def)
    have ends: "ends_cont (ends_cont False pre) u = ends_cont False (pre @ u)"
      by (auto simp: ends_cont_def)
    have split: "split_block (ends_cont False pre) suf =
        (if ends_cont False (pre @ u)
         then map_option (\<lambda>(blk, rest). ((u @ [NL]) @ blk, rest)) (split_block False v)
         else Some (u @ [NL], v))"
      by (auto simp: uv split_block_append split_block_no_NL ends option.map_comp comp_def
          intro!: option.map_cong)
    have scan: "read_scan (pre @ suf) (length pre) True =
        (if v = [] then (if ends_cont False (pre @ u) then EAGAIN else 0, pre @ suf)
         else if \<not> ends_cont False (pre @ u) then (EINVAL, ?pre)
         else read_scan (?pre @ v) (length ?pre) True)"
      using find cont by (subst read_scan.simps) (auto simp: uv Let_def)
    have IH: "v \<noteq> [] \<Longrightarrow> read_scan (?pre @ v) (length ?pre) True =
      (case split_block (ends_cont False ?pre) v of
        None \<Rightarrow> (EAGAIN, ?pre @ v)
      | Some (blk, rest) \<Rightarrow> if rest = [] then (0, ?pre @ blk) else (EINVAL, ?pre @ blk))"
      by (rule less.hyps) (simp add: uv)
    have "ends_cont False ?pre = False" by (simp add: ends_cont_def)
    then show ?thesis
      using scan IH split uv by (auto split: option.splits)
  qed
qed

text \<open>
  One \<open>Read\<close>: it asks for more until the block is complete, reports completion when
  nothing follows the block, and otherwise cuts off what follows and reports EINVAL.
\<close>

lemma Read_split:
  assumes "split_block False (buffer b) = None" and "cs \<noteq> []"
  shows "Read (Got cs) b =
     (case split_block False (buffer b @ cs) of
        None \<Rightarrow> (EAGAIN, b\<lparr>buffer := buffer b @ cs\<rparr>)
      | Some (blk, rest) \<Rightarrow> (if rest = [] then 0 else EINVAL, b\<lparr>buffer := blk\<rparr>))"
  using assms read_scan_split [of "buffer b" cs]
  by (auto simp: Read_def Let_def split_block_append split: option.splits)

lemma split_block_prefix:
  "split_block p (u @ v) = Some (u @ v, []) \<Longrightarrow> v \<noteq> [] \<Longrightarrow> split_block p u = None"
  by (auto simp: split_block_append split: option.splits)

text \<open>
  A run of \<open>read(2)\<close> that delivers exactly \<open>s\<close>, in pieces of any sizes, with retries.
\<close>

fun delivers :: "bytes \<Rightarrow> read_ret list \<Rightarrow> bool" where
  "delivers s [] = False"
| "delivers s (ReadErr e # rs) = ((e = EAGAIN \<or> e = EINTR) \<and> delivers s rs)"
| "delivers s (Got cs # rs) =
     (cs \<noteq> [] \<and> take (length cs) s = cs
      \<and> (length s = length cs \<or> delivers (drop (length cs) s) rs))"

lemma read_all_delivers:
  "split_block False (buffer b @ s) = Some (buffer b @ s, []) \<Longrightarrow> delivers s rs
   \<Longrightarrow> \<exists>rest. read_all rs b = Inr (0, b\<lparr>buffer := buffer b @ s\<rparr>, rest)"
proof (induction s rs arbitrary: b rule: delivers.induct)
  case (2 s e rs)
  then show ?case by (auto simp: Read_def)
next
  case (3 s cs rs)
  have cs: "cs \<noteq> []" "take (length cs) s = cs" using "3.prems"(2) by auto
  then have s: "s = cs @ drop (length cs) s" by (metis append_take_drop_id)
  then have "s \<noteq> []" using cs by auto
  then have unfinished: "split_block False (buffer b) = None" using split_block_prefix "3.prems"(1) by blast
  show ?case
  proof (cases "length s = length cs")
    case True
    then have "s = cs" using s by simp
    then show ?thesis using "3.prems"(1) Read_split [OF unfinished cs(1)] by simp
  next
    case False
    let ?b = "b\<lparr>buffer := buffer b @ cs\<rparr>" and ?t = "drop (length cs) s"
    have eq: "buffer ?b @ ?t = buffer b @ s" using s by simp
    have "?t \<noteq> []" using False cs by (metis append_Nil2 s)
    then have "split_block False (buffer b @ cs) = None"
      using split_block_prefix [of False "buffer b @ cs" ?t] "3.prems"(1) eq by simp
    then have "Read (Got cs) b = (EAGAIN, ?b)" using Read_split [OF unfinished cs(1)] by simp
    moreover have "\<exists>rest. read_all rs ?b = Inr (0, ?b\<lparr>buffer := buffer ?b @ ?t\<rparr>, rest)"
      by (rule "3.IH") (use "3.prems" False eq in auto)
    ultimately show ?thesis using eq by simp
  qed
qed simp

text \<open>Every block of plain lines is recognised as one complete block.\<close>

lemma split_block_plain:
  "plain_line l \<Longrightarrow> split_block False (l @ v) = map_option (\<lambda>(blk, rest). (l @ blk, rest)) (split_block False v)"
  by (simp add: split_block_append split_block_no_NL ends_cont_def plain_line_def)

lemma split_block_text:
  "ls \<noteq> [] \<Longrightarrow> list_all plain_line ls \<Longrightarrow> split_block False (text_block ls @ [NL]) = Some (text_block ls @ [NL], [])"
proof (induction ls)
  case (Cons l ls)
  have l: "plain_line l" using Cons.prems(2) by simp
  show ?case
  proof (cases "ls = []")
    case True
    then show ?thesis using split_block_plain [OF l, of "[NL]"] by (simp add: text_block_Cons)
  next
    case False
    then have "split_block False (text_block ls @ [NL]) = Some (text_block ls @ [NL], [])"
      using Cons by auto
    then show ?thesis
      using split_block_plain [OF l, of "continuation @ text_block ls @ [NL]"] False
      by (simp add: text_block_Cons continuation_def)
  qed
qed simp

lemma split_block_enc:
  "ls \<noteq> [] \<Longrightarrow> [] \<notin> set ls \<Longrightarrow> split_block False (enc_block ls @ [NL]) = Some (enc_block ls @ [NL], [])"
  using split_block_text [of "map enc_line ls"] by (simp add: enc_block_def plain_enc_lines)

text \<open>
  A block put on the wire by one side's \<open>Write\<close> loop and taken off it by the other
  side's \<open>Read\<close> loop.
\<close>

lemma transport_block:
  assumes "holds_lines ls b" and "ls \<noteq> []"
    and "takes_all (length (text_block ls) + 1) ws" and "delivers (text_block ls @ [NL]) rs"
  obtains w r where "write_all ws (PrepareToWrite b) = Inr (0, text_block ls @ [NL], empty_buffer, w)"
    and "read_all rs (PrepareToRead c) = Inr (0, \<lparr>buffer = text_block ls @ [NL], lastBol = 0\<rparr>, r)"
proof -
  let ?s = "text_block ls @ [NL]"
  have b: "buffer b = text_block ls" "list_all plain_line ls" using assms(1) by (auto simp: holds_lines_def)
  have "takes_all (length (buffer (PrepareToWrite b)) - lastBol (PrepareToWrite b)) ws"
    using assms(3) b by (simp add: PrepareToWrite_def)
  from write_all_takes_all [OF this] obtain w
    where w: "write_all ws (PrepareToWrite b) = Inr (0, ?s, empty_buffer, w)"
    using b by (auto simp: PrepareToWrite_def)
  have "\<exists>r. read_all rs (PrepareToRead c) = Inr (0, (PrepareToRead c)\<lparr>buffer := buffer (PrepareToRead c) @ ?s\<rparr>, r)"
    using assms(4) split_block_text [OF assms(2) b(2)]
    by (intro read_all_delivers) (simp_all add: PrepareToRead_def)
  then obtain r where "read_all rs (PrepareToRead c) = Inr (0, \<lparr>buffer = ?s, lastBol = 0\<rparr>, r)"
    by (auto simp: PrepareToRead_def)
  with w that show ?thesis by blast
qed

end
