(* ===== verification/Numbers.thy ===== *)
theory Numbers
  imports BufferIO
begin

text \<open>
  Decimal numbers on the wire: \<open>strtoul\<close> of the C library as the code uses it (base 10,
  64-bit \<open>unsigned long\<close>), \<open>ParseUnsigned\<close> of \<open>server.cc\<close>, and the round trip with
  \<open>std::to_string\<close>.
\<close>

section \<open>strtoul\<close>

text \<open>\<open>c_str ()\<close> of a string: what a C function sees ends at the first NUL.\<close>

definition c_str :: "bytes \<Rightarrow> bytes" where
  "c_str s = takeWhile (\<lambda>c. c \<noteq> NUL) s"

definition is_space :: "char \<Rightarrow> bool" where
  "is_space c \<longleftrightarrow> uchar c = 32 \<or> 9 \<le> uchar c \<and> uchar c \<le> 13"

definition is_digit :: "char \<Rightarrow> bool" where
  "is_digit c \<longleftrightarrow> 48 \<le> uchar c \<and> uchar c \<le> 57"

definition digit_val :: "char \<Rightarrow> nat" where
  "digit_val c = nat (uchar c - 48)"

definition dec_val :: "bytes \<Rightarrow> nat" where
  "dec_val ds = foldl (\<lambda>n c. 10 * n + digit_val c) 0 ds"

text \<open>
  \<open>strtoul (s, &eptr, 10)\<close>: leading white space, an optional sign, digits. The result is
  the value and the characters from \<open>eptr\<close> on: all of \<open>s\<close> when there are no digits. A
  value that does not fit is \<open>ULONG_MAX\<close>, a minus sign negates modulo \<open>2 ^ 64\<close>.
\<close>

definition strtoul :: "bytes \<Rightarrow> 64 word \<times> bytes" where
  "strtoul s =
     (let t = dropWhile is_space s;
          (neg, t) = (case t of
             c # t' \<Rightarrow> if c = CHR ''-'' then (True, t') else if c = CHR ''+'' then (False, t') else (False, t)
           | [] \<Rightarrow> (False, t));
          ds = takeWhile is_digit t;
          v = dec_val ds
      in if ds = [] then (0, s)
         else (if 2 ^ 64 \<le> v then - 1 else if neg then - word_of_nat v else word_of_nat v,
               dropWhile is_digit t))"

text \<open>\<open>~0u\<close> stands for a string that is not a number or not representable.\<close>

definition ParseUnsigned :: "bytes \<Rightarrow> 32 word" where
  "ParseUnsigned str =
     (let (val, eptr) = strtoul (c_str str)
      in if eptr \<noteq> [] \<or> ucast (ucast val :: 32 word) \<noteq> val then - 1 else ucast val)"

section \<open>Round trip with to_string\<close>

lemma uchar_digit: "d < 10 \<Longrightarrow> uchar (char_of (48 + d)) = int (48 + d)"
  by (simp add: uchar_char_of)

lemma is_digit_char_of: "(d :: nat) < 10 \<Longrightarrow> is_digit (char_of (48 + d))"
  by (simp add: is_digit_def uchar_digit)

lemma digits_to_string: "list_all is_digit (to_string n)"
proof (induction n rule: to_string.induct)
  case (1 n)
  then show ?case
    by (subst to_string.simps) (auto simp: is_digit_char_of)
qed

lemma dec_val_snoc: "dec_val (ds @ [c]) = 10 * dec_val ds + digit_val c"
  by (simp add: dec_val_def)

lemma dec_val_to_string [simp]: "dec_val (to_string n) = n"
proof (induction n rule: to_string.induct)
  case (1 n)
  show ?case
  proof (cases "n < 10")
    case True
    then show ?thesis by (subst to_string.simps) (simp add: dec_val_def digit_val_def uchar_digit)
  next
    case False
    then show ?thesis
      using 1 by (subst to_string.simps) (simp add: dec_val_snoc digit_val_def uchar_digit)
  qed
qed

lemma to_string_nonempty [simp]: "to_string n \<noteq> []"
  by (subst to_string.simps) simp

lemma digit_safe: "is_digit c \<Longrightarrow> \<not> needs_quote c"
  by (auto simp: is_digit_def needs_quote_def)

lemma to_string_safe [simp]: "safe_word (to_string n)"
  using digits_to_string [of n] digit_safe by (auto simp: safe_word_def list_all_iff)

lemma digits_all: "list_all is_digit ds \<Longrightarrow> takeWhile is_digit ds = ds \<and> dropWhile is_digit ds = []"
  by (induction ds) auto

lemma is_digit_not:
  assumes "is_digit c"
  shows "\<not> is_space c" "c \<noteq> CHR ''-''" "c \<noteq> CHR ''+''" "c \<noteq> NUL"
  using assms by (auto simp: is_digit_def is_space_def uchar_def)

lemma strtoul_digits:
  assumes "list_all is_digit ds" and "ds \<noteq> []"
  shows "strtoul ds = (if 2 ^ 64 \<le> dec_val ds then - 1 else word_of_nat (dec_val ds), [])"
proof -
  obtain c cs where ds: "ds = c # cs" using assms(2) by (cases ds) auto
  then have "is_digit c" using assms(1) by simp
  from is_digit_not [OF this] have "strtoul ds =
     (let es = takeWhile is_digit ds; v = dec_val es
      in if es = [] then (0, ds)
         else (if 2 ^ 64 \<le> v then - 1 else word_of_nat v, dropWhile is_digit ds))"
    by (simp add: strtoul_def ds Let_def)
  then show ?thesis using digits_all [OF assms(1)] assms(2) by (simp add: Let_def)
qed

lemma c_str_digits: "list_all is_digit ds \<Longrightarrow> c_str ds = ds"
  using is_digit_not(4) by (auto simp: c_str_def list_all_iff takeWhile_eq_all_conv)

lemma unat_lt_64: "unat (u :: 32 word) < 2 ^ 64"
  using unsigned_less [of u, where ?'a = nat] by simp

lemma ucast_32_64 [simp]: "ucast (ucast (u :: 32 word) :: 64 word) = u"
  by (rule bit_word_eqI) (simp add: bit_simps)

lemma ParseUnsigned_to_string: "ParseUnsigned (to_string (unat u)) = u"
proof -
  have "strtoul (c_str (to_string (unat u))) = (word_of_nat (unat u), [])"
    using strtoul_digits [OF digits_to_string, of "unat u"] unat_lt_64 [of u]
    by (simp add: c_str_digits digits_to_string)
  then show ?thesis by (simp add: ParseUnsigned_def)
qed

section \<open>What is taken for a number\<close>

text \<open>The three parts \<open>strtoul\<close> takes a number apart into.\<close>

definition sign :: "bytes \<Rightarrow> bool" where
  "sign sg \<longleftrightarrow> sg = [] \<or> sg = ''+'' \<or> sg = ''-''"

definition signed_val :: "bytes \<Rightarrow> bytes \<Rightarrow> nat" where
  "signed_val sg ds = (if sg = ''-'' then (2 ^ 64 - dec_val ds) mod 2 ^ 64 else dec_val ds)"

lemma dropWhile_blanks: "list_all is_space sp \<Longrightarrow> s = [] \<or> \<not> is_space (hd s) \<Longrightarrow> dropWhile is_space (sp @ s) = s"
  by (induction sp) (cases s; simp)+

lemma sign_not_space: "\<not> is_space CHR ''-''" "\<not> is_space CHR ''+''"
  by (simp_all add: is_space_def uchar_def)

lemma word_neg_nat: "v < 2 ^ 64 \<Longrightarrow> - (word_of_nat v :: 64 word) = word_of_nat ((2 ^ 64 - v) mod 2 ^ 64)"
proof -
  assume v: "v < 2 ^ 64"
  have "(word_of_nat ((2 ^ 64 - v) mod 2 ^ 64) :: 64 word) = word_of_nat (2 ^ 64 - v)"
    by (simp add: word_of_nat_eq_iff take_bit_eq_mod)
  also have "\<dots> = word_of_nat (2 ^ 64) - word_of_nat v" using v by (intro of_nat_diff) simp
  finally show ?thesis by simp
qed

lemma strtoul_parts:
  assumes "list_all is_space sp" and "sign sg" and "list_all is_digit ds" and "ds \<noteq> []"
  shows "strtoul (sp @ sg @ ds) = (if 2 ^ 64 \<le> dec_val ds then - 1 else word_of_nat (signed_val sg ds), [])"
proof -
  obtain d es where d: "ds = d # es" "is_digit d" using assms(3,4) by (cases ds) auto
  have blank: "dropWhile is_space (sp @ sg @ ds) = sg @ ds"
    using assms(2) d is_digit_not(1) sign_not_space by (intro dropWhile_blanks [OF assms(1)]) (auto simp: sign_def)
  have split: "(case sg @ ds of
      c # t' \<Rightarrow> if c = CHR ''-'' then (True, t') else if c = CHR ''+'' then (False, t') else (False, sg @ ds)
    | [] \<Rightarrow> (False, sg @ ds)) = (sg = ''-'', ds)"
    using assms(2) d is_digit_not(2,3) by (auto simp: sign_def)
  have digits: "takeWhile is_digit ds = ds" "dropWhile is_digit ds = []" using digits_all [OF assms(3)] by auto
  show ?thesis
    unfolding strtoul_def blank Let_def split
    using assms(4) word_neg_nat [of "dec_val ds"] by (simp add: digits signed_val_def)
qed

lemma strtoul_whole:
  assumes "snd (strtoul s) = []" and "s \<noteq> []"
  shows "\<exists>sp sg ds. s = sp @ sg @ ds \<and> list_all is_space sp \<and> sign sg \<and> list_all is_digit ds \<and> ds \<noteq> []"
proof -
  let ?sp = "takeWhile is_space s"
  define t where "t = dropWhile is_space s"
  define sg where "sg = (case t of c # t' \<Rightarrow> if c = CHR ''-'' \<or> c = CHR ''+'' then [c] else [] | [] \<Rightarrow> [])"
  define ds where "ds = drop (length sg) t"
  have t: "t = sg @ ds" "sign sg" by (auto simp: sg_def ds_def sign_def split: list.split)
  have split: "(case t of
      c # t' \<Rightarrow> if c = CHR ''-'' then (True, t') else if c = CHR ''+'' then (False, t') else (False, t)
    | [] \<Rightarrow> (False, t)) = (sg = ''-'', ds)"
    by (auto simp: sg_def ds_def split: list.split)
  have "takeWhile is_digit ds \<noteq> []" "dropWhile is_digit ds = []"
    using assms unfolding strtoul_def Let_def t_def [symmetric] split by (auto split: if_splits)
  then have "list_all is_digit ds" "ds \<noteq> []" by (auto simp: list_all_iff)
  moreover have "s = ?sp @ sg @ ds" using t(1) takeWhile_dropWhile_id [of is_space s] by (simp add: t_def)
  moreover have "list_all is_space ?sp" by (auto simp: list_all_iff dest: set_takeWhileD)
  ultimately show ?thesis using t(2) by blast
qed

lemma fits_unsigned: "ucast (ucast (v :: 64 word) :: 32 word) = v \<longleftrightarrow> unat v < 2 ^ 32"
proof -
  have "unat (v mod 2 ^ 32) = unat v mod 2 ^ 32" by (simp add: unat_mod)
  moreover have "unat v mod 2 ^ 32 = unat v \<longleftrightarrow> unat v < 2 ^ 32" by (metis mod_less mod_less_divisor zero_less_numeral zero_less_power)
  ultimately show ?thesis
    by (simp add: word_unat_eq_iff unsigned_ucast_eq unsigned_take_bit_eq take_bit_eq_mod)
qed

text \<open>The strings that denote a number: none at all denotes 0.\<close>

definition denotes :: "bytes \<Rightarrow> nat \<Rightarrow> bool" where
  "denotes s v \<longleftrightarrow> s = [] \<and> v = 0
     \<or> (\<exists>sp sg ds. s = sp @ sg @ ds \<and> list_all is_space sp \<and> sign sg \<and> list_all is_digit ds \<and> ds \<noteq> []
          \<and> dec_val ds < 2 ^ 64 \<and> v = signed_val sg ds)"

lemma signed_val_bound: "dec_val ds < 2 ^ 64 \<Longrightarrow> signed_val sg ds < 2 ^ 64"
  by (simp add: signed_val_def)

lemma strtoul_denotes:
  assumes "unat val < 2 ^ 32"
  shows "strtoul s = (val, []) \<longleftrightarrow> denotes s (unat val)"
proof
  assume st: "strtoul s = (val, [])"
  show "denotes s (unat val)"
  proof (cases "s = []")
    case True
    then show ?thesis using st by (auto simp: denotes_def strtoul_def)
  next
    case False
    then obtain sp sg ds where p: "s = sp @ sg @ ds" "list_all is_space sp" "sign sg" "list_all is_digit ds" "ds \<noteq> []"
      using strtoul_whole [of s] st by auto
    note v = strtoul_parts [OF p(2-5)]
    have small: "dec_val ds < 2 ^ 64"
    proof (rule ccontr)
      assume "\<not> dec_val ds < 2 ^ 64"
      then have "val = - 1" using v st p(1) by simp
      then show False using assms by (simp add: unsigned_minus_1_eq_mask mask_eq_exp_minus_1)
    qed
    then have "unat val = signed_val sg ds"
      using v st p(1) signed_val_bound [of ds sg] by (auto simp: unat_of_nat take_bit_eq_mod)
    with p small show ?thesis
      unfolding denotes_def by (intro disjI2 exI [of _ sp] exI [of _ sg] exI [of _ ds]) simp
  qed
next
  assume "denotes s (unat val)"
  then consider "s = []" "unat val = 0" | sp sg ds where "s = sp @ sg @ ds" "list_all is_space sp" "sign sg"
      "list_all is_digit ds" "ds \<noteq> []" "dec_val ds < 2 ^ 64" "unat val = signed_val sg ds"
    by (auto simp only: denotes_def)
  then show "strtoul s = (val, [])"
  proof cases
    case 1
    then show ?thesis by (simp add: strtoul_def unat_eq_0)
  next
    case (2 sp sg ds)
    have "word_of_nat (signed_val sg ds) = val" unfolding 2(7) [symmetric] by simp
    then show ?thesis using strtoul_parts [OF 2(2-5)] 2(1,6) by simp
  qed
qed

lemma ParseUnsigned_denotes:
  assumes "u \<noteq> - 1"
  shows "ParseUnsigned w = u \<longleftrightarrow> denotes (c_str w) (unat u)"
proof -
  obtain val eptr where st: "strtoul (c_str w) = (val, eptr)" by (cases "strtoul (c_str w)")
  have up: "unat (ucast u :: 64 word) = unat u" 
    using unsigned_less [of u, where ?'a = nat] by (simp add: unsigned_ucast_eq unsigned_take_bit_eq take_bit_eq_mod)
  have "ParseUnsigned w = u \<longleftrightarrow> eptr = [] \<and> val = ucast u"
    using assms st by (auto simp: ParseUnsigned_def)
  also have "\<dots> \<longleftrightarrow> denotes (c_str w) (unat u)"
    using strtoul_denotes [of "ucast u" "c_str w"] st unsigned_less [of u, where ?'a = nat] by (auto simp: up)
  finally show ?thesis .
qed

end
