(* ===== verification/Packets.thy ===== *)
theory Packets
  imports Numbers
begin

text \<open>
  The protocol's enumerations and the response packet (\<open>cody.hh\<close>, \<open>packet.cc\<close>): request
  codes with their order, packet codes, flags, and \<open>Packet\<close>, a hand-written variant.
\<close>

section \<open>Request codes\<close>

datatype RequestCode =
    RC_CONNECT | RC_MODULE_REPO | RC_MODULE_EXPORT | RC_MODULE_IMPORT | RC_MODULE_COMPILED
  | RC_INCLUDE_TRANSLATE | RC_INVOKE | RC_HWM

text \<open>The value of the enumerator, which indexes the tables of client and server.\<close>

fun rc_num :: "RequestCode \<Rightarrow> nat" where
  "rc_num RC_CONNECT = 0"
| "rc_num RC_MODULE_REPO = 1"
| "rc_num RC_MODULE_EXPORT = 2"
| "rc_num RC_MODULE_IMPORT = 3"
| "rc_num RC_MODULE_COMPILED = 4"
| "rc_num RC_INCLUDE_TRANSLATE = 5"
| "rc_num RC_INVOKE = 6"
| "rc_num RC_HWM = 7"

lemma rc_num_inject: "rc_num c = rc_num d \<longleftrightarrow> c = d"
  by (cases c; cases d) simp_all

text \<open>Enumerators compare by value.\<close>

instantiation RequestCode :: linorder
begin

definition less_eq_RequestCode :: "RequestCode \<Rightarrow> RequestCode \<Rightarrow> bool" where
  "less_eq_RequestCode c d \<longleftrightarrow> rc_num c \<le> rc_num d"

definition less_RequestCode :: "RequestCode \<Rightarrow> RequestCode \<Rightarrow> bool" where
  "less_RequestCode c d \<longleftrightarrow> rc_num c < rc_num d"

instance
  by standard (auto simp: less_eq_RequestCode_def less_RequestCode_def rc_num_inject)

end

section \<open>Flags\<close>

type_synonym Flags = "32 word"

definition Flags_None :: Flags where "Flags_None = 0"

definition Flags_NameOnly :: Flags where "Flags_NameOnly = push_bit 0 1"

definition Flags_and :: "Flags \<Rightarrow> Flags \<Rightarrow> Flags" where
  "Flags_and a b = a AND b"

definition Flags_or :: "Flags \<Rightarrow> Flags \<Rightarrow> Flags" where
  "Flags_or a b = a OR b"

section \<open>Packets\<close>

datatype Category = INTEGER | STRING | VECTOR

datatype payload = Integer "64 word" | String bytes | Vector "bytes list"

record Packet =
  payload :: payload
  code :: "16 word"
  request :: "16 word"

text \<open>The constructors; \<open>code\<close> is a bit truncated to \<open>unsigned short\<close>.\<close>

definition Packet_int :: "32 word \<Rightarrow> 64 word \<Rightarrow> Packet" where
  "Packet_int c i = \<lparr>payload = Integer i, code = ucast c, request = 0\<rparr>"

definition Packet_str :: "32 word \<Rightarrow> bytes \<Rightarrow> Packet" where
  "Packet_str c s = \<lparr>payload = String s, code = ucast c, request = 0\<rparr>"

definition Packet_vec :: "32 word \<Rightarrow> bytes list \<Rightarrow> Packet" where
  "Packet_vec c v = \<lparr>payload = Vector v, code = ucast c, request = 0\<rparr>"

definition GetCategory :: "Packet \<Rightarrow> Category" where
  "GetCategory p = (case payload p of Integer _ \<Rightarrow> INTEGER | String _ \<Rightarrow> STRING | Vector _ \<Rightarrow> VECTOR)"

definition GetCode :: "Packet \<Rightarrow> 32 word" where
  "GetCode p = ucast (code p)"

definition GetRequest :: "Packet \<Rightarrow> 32 word" where
  "GetRequest p = ucast (request p)"

definition SetRequest :: "32 word \<Rightarrow> Packet \<Rightarrow> Packet" where
  "SetRequest r p = p\<lparr>request := ucast r\<rparr>"

text \<open>The accessors read one union member each, which must be the active one.\<close>

definition GetInteger :: "Packet \<Rightarrow> 64 word res" where
  "GetInteger p = (case payload p of Integer i \<Rightarrow> Inr i | _ \<Rightarrow> Inl WrongVariant)"

definition GetString :: "Packet \<Rightarrow> bytes res" where
  "GetString p = (case payload p of String s \<Rightarrow> Inr s | _ \<Rightarrow> Inl WrongVariant)"

definition GetVector :: "Packet \<Rightarrow> bytes list res" where
  "GetVector p = (case payload p of Vector v \<Rightarrow> Inr v | _ \<Rightarrow> Inl WrongVariant)"

text \<open>Assignment through the reference \<open>GetString ()\<close>.\<close>

definition AssignString :: "bytes \<Rightarrow> Packet \<Rightarrow> Packet res" where
  "AssignString s p = (case payload p of String _ \<Rightarrow> Inr (p\<lparr>payload := String s\<rparr>) | _ \<Rightarrow> Inl WrongVariant)"

text \<open>
  \<open>Create\<close> moves another packet in, member by member according to its category;
  \<open>Destroy\<close> is described by the member whose destructor it runs, if any.
\<close>

definition Create :: "Packet \<Rightarrow> Packet \<Rightarrow> Packet" where
  "Create this t =
     (let p = this\<lparr>code := code t, request := request t\<rparr>
      in case payload t of
           String s \<Rightarrow> p\<lparr>payload := String s\<rparr>
         | Vector v \<Rightarrow> p\<lparr>payload := Vector v\<rparr>
         | Integer i \<Rightarrow> p\<lparr>payload := Integer i\<rparr>)"

definition Destroy :: "Packet \<Rightarrow> Category option" where
  "Destroy p = (case GetCategory p of STRING \<Rightarrow> Some STRING | VECTOR \<Rightarrow> Some VECTOR | _ \<Rightarrow> None)"

text \<open>
  The move constructor and assignment, each with what is left of the source: strings and
  vectors are emptied, as the standard libraries do.
\<close>

definition moved_from :: "Packet \<Rightarrow> Packet" where
  "moved_from t =
     t\<lparr>payload := (case payload t of String _ \<Rightarrow> String [] | Vector _ \<Rightarrow> Vector [] | Integer i \<Rightarrow> Integer i)\<rparr>"

definition Packet_move :: "Packet \<Rightarrow> Packet \<times> Packet" where
  "Packet_move t = (Create \<lparr>payload = Integer 0, code = 0, request = 0\<rparr> t, moved_from t)"

text \<open>Assignment first runs the destructor of the member that was active, if it has one.\<close>

definition Packet_assign :: "Packet \<Rightarrow> Packet \<Rightarrow> Category option \<times> Packet \<times> Packet" where
  "Packet_assign this t = (Destroy this, Create this t, moved_from t)"

section \<open>Packet codes\<close>

abbreviation PC_CORKED :: "32 word" where "PC_CORKED \<equiv> 0"
abbreviation PC_CONNECT :: "32 word" where "PC_CONNECT \<equiv> 1"
abbreviation PC_ERROR :: "32 word" where "PC_ERROR \<equiv> 2"
abbreviation PC_OK :: "32 word" where "PC_OK \<equiv> 3"
abbreviation PC_BOOL :: "32 word" where "PC_BOOL \<equiv> 4"
abbreviation PC_PATHNAME :: "32 word" where "PC_PATHNAME \<equiv> 5"

lemma Create_eq: "Create this t = t"
  by (cases t) (simp add: Create_def Let_def split: payload.split)

text \<open>A packet is unchanged by being moved; its source keeps its code and its category.\<close>

lemma Packet_move_eq: "fst (Packet_move t) = t" "fst (snd (Packet_assign this t)) = t"
  by (simp_all add: Packet_move_def Packet_assign_def Create_eq)

lemma moved_from_category: "GetCategory (moved_from t) = GetCategory t" "GetCode (moved_from t) = GetCode t"
  by (simp_all add: moved_from_def GetCategory_def GetCode_def split: payload.split)

lemma GetCode_of:
  "GetCode (Packet_int c i) = ucast (ucast c :: 16 word)"
  "GetCode (Packet_str c s) = ucast (ucast c :: 16 word)"
  by (simp_all add: GetCode_def Packet_int_def Packet_str_def)

lemma ucast_small: "r < 2 ^ 16 \<Longrightarrow> ucast (ucast r :: 16 word) = (r :: 32 word)"
proof -
  assume "r < 2 ^ 16"
  then have "unat r < 2 ^ 16" by (simp add: word_less_nat_alt)
  then have "unat (ucast (ucast r :: 16 word) :: 32 word) = unat r"
    by (simp add: unsigned_ucast_eq unsigned_take_bit_eq take_bit_nat_eq_self)
  then show ?thesis by (rule unsigned_word_eqI)
qed

section \<open>Protocol keywords\<close>

text \<open>Keywords are written unquoted, which is harmless since all their characters are safe.\<close>

lemma keyword_safe [simp]:
  "safe_word ''HELLO''" "safe_word ''MODULE-REPO''" "safe_word ''MODULE-EXPORT''" "safe_word ''MODULE-IMPORT''"
  "safe_word ''MODULE-COMPILED''" "safe_word ''INCLUDE-TRANSLATE''" "safe_word ''INVOKE''"
  "safe_word ''ERROR''" "safe_word ''OK''" "safe_word ''PATHNAME''" "safe_word ''BOOL''"
  "safe_word ''TRUE''" "safe_word ''FALSE''"
  by (simp_all add: safe_word_def needs_quote_def uchar_def)

lemma c_extent_safe [simp]: "safe_word w \<Longrightarrow> c_extent w None = w"
proof -
  assume "safe_word w"
  moreover have "needs_quote NUL" by (simp add: needs_quote_def uchar_def)
  ultimately have "NUL \<notin> set w" by (auto simp: safe_word_def)
  then show ?thesis by (simp add: c_extent_def takeWhile_eq_all_conv) (metis takeWhile_eq_all_conv)
qed

end
