(* ===== verification/ServerCore.thy ===== *)
theory ServerCore
  imports Packets
begin

text \<open>
  The server of one connection (\<open>server.cc\<close>, \<open>cody.hh\<close>): its state, the responses, and the
  decoding of each request. The resolver is user code: its virtual functions are a record
  of functions.
\<close>

section \<open>State\<close>

text \<open>
  \<open>READING\<close>, \<open>WRITING\<close> and \<open>PROCESSING\<close> are the three states of a connection. The
  resolver is a value of type \<open>'r\<close>: the object the pointer points to, with its state.
\<close>

datatype Direction = READING | WRITING | PROCESSING

record 'r Server =
  sv_write :: MessageBuffer
  sv_read :: MessageBuffer
  resolver :: 'r
  sv_from :: int
  sv_to :: int
  is_connected :: bool
  direction :: Direction

text \<open>
  The virtual functions of \<open>Resolver\<close>, called with the server whose \<open>resolver\<close> field is
  \<open>this\<close>. An integer result is 0, an \<open>errno\<close>, or -1; \<open>ConnectRequest\<close> returns the new
  resolver or \<open>nullptr\<close> (\<open>None\<close>).
\<close>

record 'r Resolver_vt =
  vWaitUntilReady :: "'r Server \<Rightarrow> 'r Server res"
  vErrorResponse :: "'r Server \<Rightarrow> bytes \<Rightarrow> 'r Server res"
  vConnectRequest :: "'r Server \<Rightarrow> 32 word \<Rightarrow> bytes \<Rightarrow> bytes \<Rightarrow> ('r option \<times> 'r Server) res"
  vModuleRepoRequest :: "'r Server \<Rightarrow> (int \<times> 'r Server) res"
  vModuleExportRequest :: "'r Server \<Rightarrow> Flags \<Rightarrow> bytes \<Rightarrow> (int \<times> 'r Server) res"
  vModuleImportRequest :: "'r Server \<Rightarrow> Flags \<Rightarrow> bytes \<Rightarrow> (int \<times> 'r Server) res"
  vModuleCompiledRequest :: "'r Server \<Rightarrow> Flags \<Rightarrow> bytes \<Rightarrow> (int \<times> 'r Server) res"
  vIncludeTranslateRequest :: "'r Server \<Rightarrow> Flags \<Rightarrow> bytes \<Rightarrow> (int \<times> 'r Server) res"
  vInvokeSubProcessRequest :: "'r Server \<Rightarrow> bytes list \<Rightarrow> (int \<times> 'r Server) res"

abbreviation Version :: "32 word" where "Version \<equiv> 1"

definition Server_PrepareToRead :: "'r Server \<Rightarrow> 'r Server" where
  "Server_PrepareToRead s = s\<lparr>sv_read := PrepareToRead (sv_read s), direction := READING\<rparr>"

definition Server_PrepareToWrite :: "'r Server \<Rightarrow> 'r Server" where
  "Server_PrepareToWrite s = s\<lparr>sv_write := PrepareToWrite (sv_write s), direction := WRITING\<rparr>"

text \<open>The two constructors; without descriptors the \<open>fd\<close> member is left uninitialised.\<close>

definition Server_new :: "'r \<Rightarrow> int \<Rightarrow> int \<Rightarrow> 'r Server" where
  "Server_new r fd_from fd_to =
     Server_PrepareToRead
       \<lparr>sv_write = empty_buffer, sv_read = empty_buffer, resolver = r, sv_from = fd_from, sv_to = fd_to,
        is_connected = False, direction = READING\<rparr>"

definition Server_fds :: "'r \<Rightarrow> int \<Rightarrow> int \<Rightarrow> 'r Server" where
  "Server_fds r from_fd to_fd =
     (Server_new r 0 0)\<lparr>sv_from := from_fd, sv_to := (if to_fd \<ge> 0 then to_fd else from_fd)\<rparr>"

text \<open>
  Moving a server: the new one, and what is left of the old one, with its buffers emptied.
  Assignment overwrites every member.
\<close>

definition Server_move :: "'r Server \<Rightarrow> 'r Server \<times> 'r Server" where
  "Server_move src =
     (let (w, w') = MessageBuffer_move (sv_write src);
          (r, r') = MessageBuffer_move (sv_read src)
      in (\<lparr>sv_write = w, sv_read = r, resolver = resolver src, sv_from = sv_from src, sv_to = sv_to src,
           is_connected = is_connected src, direction = direction src\<rparr>,
          src\<lparr>sv_write := w', sv_read := r'\<rparr>))"

definition Server_assign :: "'r Server \<Rightarrow> 'r Server \<Rightarrow> 'r Server \<times> 'r Server" where
  "Server_assign this src =
     (let (w, w') = MessageBuffer_move (sv_write src);
          (r, r') = MessageBuffer_move (sv_read src);
          s = this\<lparr>sv_write := w\<rparr>;
          s = s\<lparr>sv_read := r\<rparr>;
          s = s\<lparr>resolver := resolver src\<rparr>;
          s = s\<lparr>is_connected := is_connected src\<rparr>;
          s = s\<lparr>direction := direction src\<rparr>;
          s = s\<lparr>sv_from := sv_from src\<rparr>;
          s = s\<lparr>sv_to := sv_to src\<rparr>
      in (s, src\<lparr>sv_write := w', sv_read := r'\<rparr>))"

lemma Server_move_eq: "fst (Server_move src) = src" "Server_assign this src = Server_move src"
  by (simp_all add: Server_move_def Server_assign_def MessageBuffer_move_def)

definition Server_IsConnected :: "'r Server \<Rightarrow> bool" where
  "Server_IsConnected s = is_connected s"

definition SetDirection :: "Direction \<Rightarrow> 'r Server \<Rightarrow> 'r Server" where
  "SetDirection d s = s\<lparr>direction := d\<rparr>"

definition GetDirection :: "'r Server \<Rightarrow> Direction" where
  "GetDirection s = direction s"

definition Server_GetFDRead :: "'r Server \<Rightarrow> int" where
  "Server_GetFDRead s = sv_from s"

definition Server_GetFDWrite :: "'r Server \<Rightarrow> int" where
  "Server_GetFDWrite s = sv_to s"

definition GetResolver :: "'r Server \<Rightarrow> 'r" where
  "GetResolver s = resolver s"

text \<open>One system call each, on the server's own buffer; \<open>Server_Write\<close> gives what was accepted as well.\<close>

definition Server_Read :: "read_ret \<Rightarrow> 'r Server \<Rightarrow> int \<times> 'r Server" where
  "Server_Read ret s = (let (e, b) = Read ret (sv_read s) in (e, s\<lparr>sv_read := b\<rparr>))"

definition Server_Write :: "write_ret \<Rightarrow> 'r Server \<Rightarrow> int \<times> bytes \<times> 'r Server" where
  "Server_Write ret s = (let (e, sent, b) = Write ret (sv_write s) in (e, sent, s\<lparr>sv_write := b\<rparr>))"

section \<open>Responses\<close>

definition ErrorResponse :: "bytes \<Rightarrow> nat option \<Rightarrow> 'r Server \<Rightarrow> 'r Server" where
  "ErrorResponse error elen s =
     (let w = BeginLine (sv_write s);
          w = AppendWord ''ERROR'' False None w;
          w = AppendWord error True elen w
      in s\<lparr>sv_write := EndLine w\<rparr>)"

definition ErrorResponse_string :: "bytes \<Rightarrow> 'r Server \<Rightarrow> 'r Server" where
  "ErrorResponse_string error s = ErrorResponse error (Some (length error)) s"

definition OKResponse :: "'r Server \<Rightarrow> 'r Server" where
  "OKResponse s =
     (let w = BeginLine (sv_write s);
          w = AppendWord ''OK'' False None w
      in s\<lparr>sv_write := EndLine w\<rparr>)"

definition ConnectResponse :: "bytes \<Rightarrow> nat option \<Rightarrow> 'r Server \<Rightarrow> 'r Server" where
  "ConnectResponse agent alen s =
     (let s = s\<lparr>is_connected := True\<rparr>;
          w = BeginLine (sv_write s);
          w = AppendWord ''HELLO'' False None w;
          w = AppendInteger Version w;
          w = AppendWord agent True alen w
      in s\<lparr>sv_write := EndLine w\<rparr>)"

definition ConnectResponse_string :: "bytes \<Rightarrow> 'r Server \<Rightarrow> 'r Server" where
  "ConnectResponse_string agent s = ConnectResponse agent (Some (length agent)) s"

definition PathnameResponse :: "bytes \<Rightarrow> nat option \<Rightarrow> 'r Server \<Rightarrow> 'r Server" where
  "PathnameResponse cmi clen s =
     (let w = BeginLine (sv_write s);
          w = AppendWord ''PATHNAME'' False None w;
          w = AppendWord cmi True clen w
      in s\<lparr>sv_write := EndLine w\<rparr>)"

text \<open>The path may be null.\<close>

definition PathnameResponse_ptr :: "bytes option \<Rightarrow> nat option \<Rightarrow> 'r Server \<Rightarrow> 'r Server res" where
  "PathnameResponse_ptr cmi clen s =
     (let w = BeginLine (sv_write s);
          w = AppendWord ''PATHNAME'' False None w
      in bind_res (AppendWord_ptr cmi True clen w) (\<lambda>w. Inr (s\<lparr>sv_write := EndLine w\<rparr>)))"

definition PathnameResponse_string :: "bytes \<Rightarrow> 'r Server \<Rightarrow> 'r Server" where
  "PathnameResponse_string path s = PathnameResponse path (Some (length path)) s"

definition BoolResponse :: "bool \<Rightarrow> 'r Server \<Rightarrow> 'r Server" where
  "BoolResponse truthiness s =
     (let w = BeginLine (sv_write s);
          w = AppendWord ''BOOL'' False None w;
          w = AppendWord (if truthiness then ''TRUE'' else ''FALSE'') False None w
      in s\<lparr>sv_write := EndLine w\<rparr>)"

section \<open>Requests\<close>

definition ConnectRequest :: "'r Resolver_vt \<Rightarrow> 'r Server \<Rightarrow> bytes list \<Rightarrow> ('r option \<times> 'r Server) res" where
  "ConnectRequest vt s words =
     (if length words < 3 \<or> length words > 4 then Inr (None, s)
      else
        let words = (if length words = 3 then words @ [[]] else words);
            version = ParseUnsigned (words ! 1)
        in if version = - 1 then Inr (None, s)
           else vConnectRequest vt s version (words ! 2) (words ! 3))"

definition ModuleRepoRequest :: "'r Resolver_vt \<Rightarrow> 'r Server \<Rightarrow> bytes list \<Rightarrow> (int \<times> 'r Server) res" where
  "ModuleRepoRequest vt s words =
     (if length words \<noteq> 1 then Inr (-1, s) else vModuleRepoRequest vt s)"

text \<open>
  The four requests with a name and optional flags differ only in the virtual function
  they call; \<open>name_flags\<close> is their common body, over that function.
\<close>

definition name_flags ::
  "('r Server \<Rightarrow> Flags \<Rightarrow> bytes \<Rightarrow> (int \<times> 'r Server) res) \<Rightarrow> 'r Server \<Rightarrow> bytes list \<Rightarrow> (int \<times> 'r Server) res" where
  "name_flags request_fn s words =
     (if length words < 2 \<or> length words > 3 \<or> words ! 1 = [] then Inr (-1, s)
      else
        let flags = Flags_None
        in if length words = 3 then
             (let val = ParseUnsigned (words ! 2)
              in if val = - 1 then Inr (-1, s) else request_fn s val (words ! 1))
           else request_fn s flags (words ! 1))"

definition ModuleExportRequest :: "'r Resolver_vt \<Rightarrow> 'r Server \<Rightarrow> bytes list \<Rightarrow> (int \<times> 'r Server) res" where
  "ModuleExportRequest vt = name_flags (vModuleExportRequest vt)"

definition ModuleImportRequest :: "'r Resolver_vt \<Rightarrow> 'r Server \<Rightarrow> bytes list \<Rightarrow> (int \<times> 'r Server) res" where
  "ModuleImportRequest vt = name_flags (vModuleImportRequest vt)"

definition ModuleCompiledRequest :: "'r Resolver_vt \<Rightarrow> 'r Server \<Rightarrow> bytes list \<Rightarrow> (int \<times> 'r Server) res" where
  "ModuleCompiledRequest vt = name_flags (vModuleCompiledRequest vt)"

definition IncludeTranslateRequest :: "'r Resolver_vt \<Rightarrow> 'r Server \<Rightarrow> bytes list \<Rightarrow> (int \<times> 'r Server) res" where
  "IncludeTranslateRequest vt = name_flags (vIncludeTranslateRequest vt)"

definition InvokeSubProcessRequest :: "'r Resolver_vt \<Rightarrow> 'r Server \<Rightarrow> bytes list \<Rightarrow> (int \<times> 'r Server) res" where
  "InvokeSubProcessRequest vt s args =
     (if length args < 2 \<or> args ! 1 = [] then Inr (-1, s)
      else vInvokeSubProcessRequest vt s args)"

text \<open>The table of requests, in the order of \<open>RequestCode\<close>; HELLO has no function.\<close>

definition requestTable ::
  "'r Resolver_vt \<Rightarrow> (bytes \<times> ('r Server \<Rightarrow> bytes list \<Rightarrow> (int \<times> 'r Server) res) option) list" where
  "requestTable vt =
     [(''HELLO'', None),
      (''MODULE-REPO'', Some (ModuleRepoRequest vt)),
      (''MODULE-EXPORT'', Some (ModuleExportRequest vt)),
      (''MODULE-IMPORT'', Some (ModuleImportRequest vt)),
      (''MODULE-COMPILED'', Some (ModuleCompiledRequest vt)),
      (''INCLUDE-TRANSLATE'', Some (IncludeTranslateRequest vt)),
      (''INVOKE'', Some (InvokeSubProcessRequest vt))]"

text \<open>The search \<open>while (ix--)\<close>: from the end; if nothing matches, \<open>ix\<close> wraps around.\<close>

fun find_request :: "bytes list \<Rightarrow> bytes \<Rightarrow> nat \<Rightarrow> nat" where
  "find_request names w 0 = 2 ^ 32 - 1"
| "find_request names w (Suc ix) = (if w \<noteq> names ! ix then find_request names w ix else ix)"

end
