(* ===== verification/ServerProcess.thy ===== *)
theory ServerProcess
  imports ServerCore
begin

text \<open>
  The processing of a message block (\<open>Server::ProcessRequests\<close>, \<open>Server::DirectProcess\<close>):
  each line is lexed, looked up in the table of requests, guarded by the handshake, passed
  to the resolver, and answered. The loop is partial, since a resolver may do anything to
  the server it is given.
\<close>

section \<open>One line\<close>

text \<open>
  The body of the search loop once the request is found. The result is \<open>err\<close>; the null
  function of HELLO is never called.
\<close>

definition dispatch :: "'r Resolver_vt \<Rightarrow> nat \<Rightarrow> bytes list \<Rightarrow> 'r Server \<Rightarrow> (int \<times> 'r Server) res" where
  "dispatch vt ix words s =
     (if ix = rc_num RC_CONNECT then
        (if is_connected s then Inr (-1, s)
         else bind_res (ConnectRequest vt s words) (\<lambda>(r, s).
           case r of Some r \<Rightarrow> Inr (0, s\<lparr>resolver := r\<rparr>) | None \<Rightarrow> Inr (-1, s)))
      else if \<not> is_connected s then Inr (-1, s)
      else (case snd (requestTable vt ! ix) of Some fn \<Rightarrow> fn s words | None \<Rightarrow> Inl OutOfRange))"

text \<open>The reply to a line that could not be served; \<open>strerr\<close> is \<open>strerror\<close>.\<close>

definition error_prefix :: "int \<Rightarrow> nat \<Rightarrow> bool \<Rightarrow> bytes" where
  "error_prefix err ix connected =
     (if err > 0 then ''error processing '' @ [APOS]
      else if ix \<ge> rc_num RC_HWM then ''unrecognized '' @ [APOS]
      else if connected \<and> ix = rc_num RC_CONNECT then ''already connected '' @ [APOS]
      else if \<not> connected \<and> ix \<noteq> rc_num RC_CONNECT then ''not connected '' @ [APOS]
      else ''malformed '' @ [APOS])"

definition error_reply :: "(int \<Rightarrow> bytes) \<Rightarrow> 'r Resolver_vt \<Rightarrow> int \<Rightarrow> nat \<Rightarrow> 'r Server \<Rightarrow> 'r Server res" where
  "error_reply strerr vt err ix s =
     bind_res (LexedLine (sv_read s) (error_prefix err ix (is_connected s))) (\<lambda>msg.
       let msg = msg @ [APOS];
           msg = (if err > 0 then msg @ '' '' @ strerr err else msg)
       in vErrorResponse vt s msg)"

definition process_line :: "(int \<Rightarrow> bytes) \<Rightarrow> 'r Resolver_vt \<Rightarrow> 'r Server \<Rightarrow> 'r Server res" where
  "process_line strerr vt s =
     bind_res (Lex (sv_read s)) (\<lambda>(e, words, rb).
     let s = s\<lparr>sv_read := rb\<rparr> in
     bind_res
       (if e = 0 then
          (if words = [] then Inl AssertFailure
           else
             let ix = find_request (map fst (requestTable vt)) (words ! 0) (rc_num RC_HWM)
             in if ix \<ge> rc_num RC_HWM then Inr (0, ix, s)
                else bind_res (dispatch vt ix words s) (\<lambda>(err, s). Inr (err, ix, s)))
        else Inr (0, rc_num RC_HWM, s))
       (\<lambda>(err, ix, s).
          if err \<noteq> 0 \<or> ix \<ge> rc_num RC_HWM then error_reply strerr vt err ix s else Inr s))"

section \<open>The whole block\<close>

partial_function (option) process_loop ::
  "(int \<Rightarrow> bytes) \<Rightarrow> 'r Resolver_vt \<Rightarrow> 'r Server \<Rightarrow> 'r Server res option" where
  "process_loop strerr vt s =
     (if IsAtEnd (sv_read s) then Some (Inr s)
      else case process_line strerr vt s of
             Inl h \<Rightarrow> Some (Inl h)
           | Inr s \<Rightarrow> process_loop strerr vt s)"

definition ProcessRequests :: "(int \<Rightarrow> bytes) \<Rightarrow> 'r Resolver_vt \<Rightarrow> 'r Server \<Rightarrow> 'r Server res" where
  "ProcessRequests strerr vt s =
     (case process_loop strerr vt (s\<lparr>direction := PROCESSING\<rparr>) of
        None \<Rightarrow> Inl Diverges
      | Some r \<Rightarrow> r)"

text \<open>
  The direct connection swaps buffers instead of copying bytes: the result is the server
  and the new contents of the client's \<open>from\<close> and \<open>to\<close> buffers.
\<close>

definition DirectProcess ::
  "(int \<Rightarrow> bytes) \<Rightarrow> 'r Resolver_vt \<Rightarrow> 'r Server \<Rightarrow> MessageBuffer \<Rightarrow> MessageBuffer
   \<Rightarrow> ('r Server \<times> MessageBuffer \<times> MessageBuffer) res" where
  "DirectProcess strerr vt s from_buf to_buf =
     (let s = s\<lparr>sv_read := PrepareToRead (sv_read s)\<rparr>;
          (s, from_buf) = (s\<lparr>sv_read := from_buf\<rparr>, sv_read s)
      in bind_res (ProcessRequests strerr vt s) (\<lambda>s.
         bind_res (vWaitUntilReady vt s) (\<lambda>s.
         let s = s\<lparr>sv_write := PrepareToWrite (sv_write s)\<rparr>;
             (to_buf, s) = (sv_write s, s\<lparr>sv_write := to_buf\<rparr>)
         in Inr (s, from_buf, to_buf))))"

section \<open>The abstract server\<close>

text \<open>
  What a server promises, without buffers, indices or lexing: the state is the resolver
  and whether the handshake has taken place, a request is a value, and each line of a
  block has one reply, a list of words.
\<close>

datatype request =
    Repo
  | Export Flags bytes
  | Import Flags bytes
  | Compiled Flags bytes
  | Translate Flags bytes
  | Invoke "bytes list"

datatype decoded =
    Unrecognized
  | BadHello
  | Hello "32 word" bytes bytes
  | BadRequest
  | Request request

datatype 'r outcome = Replies "bytes list" 'r bool | Fails int 'r

definition decode_number :: "bytes \<Rightarrow> 32 word option" where
  "decode_number w = (if ParseUnsigned w = - 1 then None else Some (ParseUnsigned w))"

definition decode_named :: "(Flags \<Rightarrow> bytes \<Rightarrow> request) \<Rightarrow> bytes list \<Rightarrow> decoded" where
  "decode_named mk args =
     (case args of
        [n] \<Rightarrow> if n = [] then BadRequest else Request (mk 0 n)
      | [n, f] \<Rightarrow> if n = [] then BadRequest
                  else (case decode_number f of None \<Rightarrow> BadRequest | Some f \<Rightarrow> Request (mk f n))
      | _ \<Rightarrow> BadRequest)"

definition decode_hello :: "bytes list \<Rightarrow> decoded" where
  "decode_hello args =
     (case args of
        [v, a] \<Rightarrow> (case decode_number v of None \<Rightarrow> BadHello | Some v \<Rightarrow> Hello v a [])
      | [v, a, i] \<Rightarrow> (case decode_number v of None \<Rightarrow> BadHello | Some v \<Rightarrow> Hello v a i)
      | _ \<Rightarrow> BadHello)"

definition decode :: "bytes list \<Rightarrow> decoded" where
  "decode ws =
     (case ws of
        [] \<Rightarrow> Unrecognized
      | k # args \<Rightarrow>
          if k = ''HELLO'' then decode_hello args
          else if k = ''MODULE-REPO'' then (if args = [] then Request Repo else BadRequest)
          else if k = ''MODULE-EXPORT'' then decode_named Export args
          else if k = ''MODULE-IMPORT'' then decode_named Import args
          else if k = ''MODULE-COMPILED'' then decode_named Compiled args
          else if k = ''INCLUDE-TRANSLATE'' then decode_named Translate args
          else if k = ''INVOKE'' then
            (if args = [] \<or> hd args = [] then BadRequest else Request (Invoke ws))
          else Unrecognized)"

definition complaint :: "bytes \<Rightarrow> bytes \<Rightarrow> bytes" where
  "complaint what line = what @ '' '' @ [APOS] @ strip_cont line @ [APOS]"

text \<open>
  \<open>serve\<close> is one step of the abstract server, over the resolver's own contract: what it
  answers to a handshake, to a request, and how it words an error.
\<close>

fun serve ::
  "('r \<Rightarrow> 32 word \<Rightarrow> bytes \<Rightarrow> bytes \<Rightarrow> 'r outcome) \<Rightarrow> ('r \<Rightarrow> request \<Rightarrow> 'r outcome)
   \<Rightarrow> ('r \<Rightarrow> bytes \<Rightarrow> bytes list \<times> 'r) \<Rightarrow> (int \<Rightarrow> bytes)
   \<Rightarrow> 'r \<times> bool \<Rightarrow> bytes \<Rightarrow> bytes list \<times> 'r \<times> bool" where
  "serve conn req err strerr (r, c) line =
     (let fail = (\<lambda>r msg. let (ws, r') = err r msg in (ws, r', c))
      in case decode (case lex_line line of None \<Rightarrow> [] | Some ws \<Rightarrow> ws) of
           Unrecognized \<Rightarrow> fail r (complaint ''unrecognized'' line)
         | BadHello \<Rightarrow> fail r (complaint (if c then ''already connected'' else ''malformed'') line)
         | Hello v agent ident \<Rightarrow>
             (if c then fail r (complaint ''already connected'' line)
              else case conn r v agent ident of
                     Replies ws r' c' \<Rightarrow> (ws, r', c')
                   | Fails e r' \<Rightarrow> fail r' (complaint ''malformed'' line))
         | BadRequest \<Rightarrow> fail r (complaint (if c then ''malformed'' else ''not connected'') line)
         | Request q \<Rightarrow>
             (if \<not> c then fail r (complaint ''not connected'' line)
              else case req r q of
                     Replies ws r' c' \<Rightarrow> (ws, r', c')
                   | Fails e r' \<Rightarrow>
                       if 0 < e then fail r' (complaint ''error processing'' line @ '' '' @ strerr e)
                       else fail r' (complaint ''malformed'' line)))"

fun serve_all ::
  "('r \<times> bool \<Rightarrow> bytes \<Rightarrow> bytes list \<times> 'r \<times> bool) \<Rightarrow> 'r \<times> bool \<Rightarrow> bytes list
   \<Rightarrow> bytes list list \<times> 'r \<times> bool" where
  "serve_all step st [] = ([], st)"
| "serve_all step st (line # lines) =
     (let (ws, st) = step st line; (wss, st) = serve_all step st lines in (ws # wss, st))"

end
