(* ===== verification/ServerContract.thy ===== *)
theory ServerContract
  imports ServerProcess
begin

text \<open>
  The interface between the server and a resolver, as a locale, and the refinement proved
  inside it: whatever the resolver answers, \<open>ProcessRequests\<close> implements the abstract
  server, one reply for each line of the block, in order, and it returns.
\<close>

section \<open>What a resolver operation may do\<close>

text \<open>
  \<open>answered s ws r c s'\<close>: exactly the line \<open>ws\<close> has been added to the write buffer, and
  nothing but the resolver, the handshake flag and the write buffer has changed.
\<close>

definition answered :: "'r Server \<Rightarrow> bytes list \<Rightarrow> 'r \<Rightarrow> bool \<Rightarrow> 'r Server \<Rightarrow> bool" where
  "answered s ws r c s' \<longleftrightarrow> ws \<noteq> []
     \<and> (\<exists>w. s' = s\<lparr>sv_write := w, resolver := r, is_connected := c\<rparr>
          \<and> (\<forall>ls. holds_block ls (sv_write s) \<longrightarrow> holds_block (ls @ [ws]) w))"

definition obeys :: "'r outcome \<Rightarrow> 'r Server \<Rightarrow> (int \<times> 'r Server) res \<Rightarrow> bool" where
  "obeys out s res \<longleftrightarrow>
     (case out of
        Replies ws r c \<Rightarrow> (\<exists>s'. res = Inr (0, s') \<and> answered s ws r c s')
      | Fails e r \<Rightarrow> e \<noteq> 0 \<and> res = Inr (e, s\<lparr>resolver := r\<rparr>))"

definition obeys_connect :: "'r outcome \<Rightarrow> 'r Server \<Rightarrow> ('r option \<times> 'r Server) res \<Rightarrow> bool" where
  "obeys_connect out s res \<longleftrightarrow>
     (case out of
        Replies ws r c \<Rightarrow> (\<exists>s'. res = Inr (Some r, s') \<and> answered s ws r c (s'\<lparr>resolver := r\<rparr>))
      | Fails e r \<Rightarrow> res = Inr (None, s\<lparr>resolver := r\<rparr>))"

text \<open>What the function of the table does, against the decoded request.\<close>

definition matches ::
  "('r \<Rightarrow> request \<Rightarrow> 'r outcome) \<Rightarrow> 'r Server \<Rightarrow> decoded \<Rightarrow> (int \<times> 'r Server) res \<Rightarrow> bool" where
  "matches req s d res \<longleftrightarrow>
     (case d of
        Request q \<Rightarrow> is_connected s \<longrightarrow> obeys (req (resolver s) q) s res
      | _ \<Rightarrow> d = BadRequest \<and> res = Inr (-1, s))"

lemma matches_simps [simp]:
  "matches req s BadRequest res \<longleftrightarrow> res = Inr (-1, s)"
  "matches req s (Request q) res \<longleftrightarrow> (is_connected s \<longrightarrow> obeys (req (resolver s) q) s res)"
  by (simp_all add: matches_def)

lemma answered_fields:
  assumes "answered s ws r c s'"
  shows "sv_read s' = sv_read s" "resolver s' = r" "is_connected s' = c" "direction s' = direction s"
    "sv_from s' = sv_from s" "sv_to s' = sv_to s"
    "holds_block ls (sv_write s) \<Longrightarrow> holds_block (ls @ [ws]) (sv_write s')"
  using assms by (auto simp: answered_def)

lemma seven: "7 = Suc (Suc (Suc (Suc (Suc (Suc (Suc 0))))))"
  by simp

lemma answered_resolver [simp]: "answered (s\<lparr>resolver := r0\<rparr>) ws r c s' \<longleftrightarrow> answered s ws r c s'"
  by (simp add: answered_def)

lemma find_request_table:
  "find_request (map fst (requestTable vt)) k (rc_num RC_HWM) =
     (if k = ''INVOKE'' then rc_num RC_INVOKE
      else if k = ''INCLUDE-TRANSLATE'' then rc_num RC_INCLUDE_TRANSLATE
      else if k = ''MODULE-COMPILED'' then rc_num RC_MODULE_COMPILED
      else if k = ''MODULE-IMPORT'' then rc_num RC_MODULE_IMPORT
      else if k = ''MODULE-EXPORT'' then rc_num RC_MODULE_EXPORT
      else if k = ''MODULE-REPO'' then rc_num RC_MODULE_REPO
      else if k = ''HELLO'' then rc_num RC_CONNECT
      else 2 ^ 32 - 1)"
  unfolding rc_num.simps seven by (simp add: requestTable_def)

section \<open>The lines of a block\<close>

fun nl_lines :: "bytes \<Rightarrow> bytes list" where
  "nl_lines [] = []"
| "nl_lines (c # cs) =
     (if c = NL then [] # nl_lines cs
      else case nl_lines cs of [] \<Rightarrow> [[c]] | l # ls \<Rightarrow> (c # l) # ls)"

definition lines_of :: "MessageBuffer \<Rightarrow> bytes list" where
  "lines_of b = nl_lines (drop (lastBol b) (buffer b))"

definition at_end :: "MessageBuffer \<Rightarrow> MessageBuffer" where
  "at_end b = b\<lparr>lastBol := length (buffer b)\<rparr>"

lemma nl_lines_line: "NL \<notin> set l \<Longrightarrow> nl_lines (l @ NL # cs) = l # nl_lines cs"
  by (induction l) auto

lemma lines_of_end: "IsAtEnd b \<Longrightarrow> lines_of b = []"
  by (simp add: lines_of_def IsAtEnd_def)

lemma at_end_end: "IsAtEnd b \<Longrightarrow> at_end b = b"
  by (cases b) (simp add: at_end_def IsAtEnd_def)

lemma at_end_skip [simp]: "at_end (skip_line b) = at_end b"
  by (simp add: at_end_def skip_line_def)

lemma lines_of_line:
  assumes "readable b" and "\<not> IsAtEnd b"
  shows "lines_of b = next_line b # lines_of (skip_line b)"
proof -
  obtain rest where "drop (lastBol b) (buffer b) = next_line b @ NL # rest" "NL \<notin> set (next_line b)"
    using readable_line_at [OF assms] by (auto simp: line_at_def)
  moreover from this have "drop (Suc (length (next_line b))) (drop (lastBol b) (buffer b)) = rest" by simp
  then have "drop (lastBol (skip_line b)) (buffer b) = rest" by (simp add: skip_line_def add.commute)
  ultimately show ?thesis by (simp add: lines_of_def nl_lines_line)
qed

section \<open>The fault of the first line\<close>

lemma bad_first_line_faults:
  assumes "readable (sv_read s)" and "\<not> IsAtEnd (sv_read s)" and "lastBol (sv_read s) = 0"
    and "next_line (sv_read s) = [] \<or> next_line (sv_read s) = [CONTINUE]"
  shows "ProcessRequests strerr vt s = Inl OutOfRange"
proof -
  have "Lex (sv_read s) = Inr (ENOENT, [], skip_line (sv_read s))"
    using assms(4) Lex_line [OF assms(1,2)] by (auto simp: lex_result_def lex_line_def)
  moreover have "LexedLine (skip_line (sv_read s)) str = Inl OutOfRange" for str
    using LexedLine_line [OF assms(1,2)] assms(3,4) by auto
  ultimately have "process_line strerr vt (s\<lparr>direction := PROCESSING\<rparr>) = Inl OutOfRange"
    by (simp add: process_line_def Let_def error_reply_def)
  then show ?thesis
    using assms(2) by (simp add: ProcessRequests_def process_loop.simps)
qed

text \<open>A block that does not end with a newline trips the assertion of \<open>Lex\<close>; an empty one is no block.\<close>

lemma unterminated_faults:
  assumes "buffer (sv_read s) \<noteq> []" and "last (buffer (sv_read s)) \<noteq> NL" and "\<not> IsAtEnd (sv_read s)"
  shows "ProcessRequests strerr vt s = Inl AssertFailure"
proof -
  have "Lex (sv_read s) = Inl AssertFailure"
    using assms by (simp add: Lex_def Lex_at_def rd_back_def rd_def last_conv_nth Suc_le_eq)
  then show ?thesis
    using assms(3) by (simp add: ProcessRequests_def process_loop.simps process_line_def)
qed

lemma ProcessRequests_end: "IsAtEnd (sv_read s) \<Longrightarrow> ProcessRequests strerr vt s = Inr (s\<lparr>direction := PROCESSING\<rparr>)"
  by (simp add: ProcessRequests_def process_loop.simps)

section \<open>The interface\<close>

locale resolver_contract =
  fixes vt :: "'r Resolver_vt"
    and conn :: "'r \<Rightarrow> 32 word \<Rightarrow> bytes \<Rightarrow> bytes \<Rightarrow> 'r outcome"
    and req :: "'r \<Rightarrow> request \<Rightarrow> 'r outcome"
    and err :: "'r \<Rightarrow> bytes \<Rightarrow> bytes list \<times> 'r"
  assumes connect_law: "\<not> is_connected s \<Longrightarrow> obeys_connect (conn (resolver s) v a i) s (vConnectRequest vt s v a i)"
    and repo_law: "is_connected s \<Longrightarrow> obeys (req (resolver s) Repo) s (vModuleRepoRequest vt s)"
    and export_law: "is_connected s \<Longrightarrow> n \<noteq> [] \<Longrightarrow> obeys (req (resolver s) (Export f n)) s (vModuleExportRequest vt s f n)"
    and import_law: "is_connected s \<Longrightarrow> n \<noteq> [] \<Longrightarrow> obeys (req (resolver s) (Import f n)) s (vModuleImportRequest vt s f n)"
    and compiled_law: "is_connected s \<Longrightarrow> n \<noteq> [] \<Longrightarrow> obeys (req (resolver s) (Compiled f n)) s (vModuleCompiledRequest vt s f n)"
    and translate_law: "is_connected s \<Longrightarrow> n \<noteq> [] \<Longrightarrow> obeys (req (resolver s) (Translate f n)) s (vIncludeTranslateRequest vt s f n)"
    and invoke_law: "is_connected s \<Longrightarrow> 2 \<le> length args \<Longrightarrow> args ! 1 \<noteq> []
      \<Longrightarrow> obeys (req (resolver s) (Invoke args)) s (vInvokeSubProcessRequest vt s args)"
    and error_law: "\<exists>s'. vErrorResponse vt s msg = Inr s'
      \<and> answered s (fst (err (resolver s) msg)) (snd (err (resolver s) msg)) (is_connected s) s'"
begin

lemma name_flags_named:
  assumes law: "\<And>f n. is_connected s \<Longrightarrow> n \<noteq> [] \<Longrightarrow> obeys (req (resolver s) (mk f n)) s (fn s f n)"
  shows "matches req s (decode_named mk args) (name_flags fn s (k # args))"
proof -
  consider "args = []" | n where "args = [n]" | n f where "args = [n, f]" | n f g rest where "args = n # f # g # rest"
    by (metis list.exhaust)
  then show ?thesis
    by cases (auto simp: decode_named_def decode_number_def name_flags_def Flags_None_def Let_def intro: law)
qed

lemma hello_connect:
  "case decode_hello args of
     Hello v a i \<Rightarrow> \<not> is_connected s \<longrightarrow> obeys_connect (conn (resolver s) v a i) s (ConnectRequest vt s (k # args))
   | _ \<Rightarrow> decode_hello args = BadHello \<and> ConnectRequest vt s (k # args) = Inr (None, s)"
proof -
  consider "length args < 2" | v a where "args = [v, a]" | v a i where "args = [v, a, i]" | "3 < length args"
    by (cases args rule: list.exhaust [case_names Nil Cons]; cases "tl args"; cases "tl (tl args)";
        cases "tl (tl (tl args))") auto
  then show ?thesis
  proof cases
    case 1
    then have "decode_hello args = BadHello" by (auto simp: decode_hello_def split: list.split)
    then show ?thesis using 1 by (simp add: ConnectRequest_def)
  next
    case 4
    then have "decode_hello args = BadHello" by (auto simp: decode_hello_def split: list.split)
    then show ?thesis using 4 by (simp add: ConnectRequest_def)
  qed (auto simp: decode_hello_def decode_number_def ConnectRequest_def Let_def intro: connect_law)
qed

text \<open>The invocation of the table's function, against the decoding of the same words.\<close>

lemma table_request:
  assumes "k = ''MODULE-REPO'' \<or> k = ''MODULE-EXPORT'' \<or> k = ''MODULE-IMPORT'' \<or> k = ''MODULE-COMPILED''
    \<or> k = ''INCLUDE-TRANSLATE'' \<or> k = ''INVOKE''"
  shows "\<exists>fn. snd (requestTable vt ! find_request (map fst (requestTable vt)) k (rc_num RC_HWM)) = Some fn
    \<and> matches req s (decode (k # args)) (fn s (k # args))"
proof -
  have "matches req s (if args = [] \<or> hd args = [] then BadRequest else Request (Invoke (k # args)))
    (InvokeSubProcessRequest vt s (k # args))"
    by (cases args) (auto simp: InvokeSubProcessRequest_def Suc_le_eq intro: invoke_law)
  then show ?thesis
    using assms repo_law [of s]
      name_flags_named [of s Export "vModuleExportRequest vt" args k, OF export_law]
      name_flags_named [of s Import "vModuleImportRequest vt" args k, OF import_law]
      name_flags_named [of s Compiled "vModuleCompiledRequest vt" args k, OF compiled_law]
      name_flags_named [of s Translate "vIncludeTranslateRequest vt" args k, OF translate_law]
    unfolding find_request_table
    by (elim disjE)
      (auto simp: requestTable_def decode_def ModuleRepoRequest_def ModuleExportRequest_def
        ModuleImportRequest_def ModuleCompiledRequest_def IncludeTranslateRequest_def split: if_splits)
qed

lemma error_reply_line:
  assumes "\<And>str. LexedLine (sv_read s) str = Inr (str @ txt)"
    and "msg = error_prefix e ix (is_connected s) @ txt @ [APOS] @ (if e > 0 then '' '' @ strerr e else [])"
  shows "\<exists>s'. error_reply strerr vt e ix s = Inr s'
    \<and> answered s (fst (err (resolver s) msg)) (snd (err (resolver s) msg)) (is_connected s) s'"
  using error_law [of s msg] unfolding assms(2) by (cases "0 < e") (simp_all add: error_reply_def Let_def assms(1))

text \<open>
  \<open>answers s line res\<close>: the result of processing is a server that has given the reply of
  the abstract server to \<open>line\<close>.
\<close>

definition answers :: "(int \<Rightarrow> bytes) \<Rightarrow> 'r Server \<Rightarrow> bytes \<Rightarrow> 'r Server res \<Rightarrow> bool" where
  "answers strerr s line res \<longleftrightarrow>
     (\<exists>s'. res = Inr s'
        \<and> (let (ws, r', c') = serve conn req err strerr (resolver s, is_connected s) line
           in answered s ws r' c' s'))"

lemma error_answers:
  assumes lexed: "\<And>str. LexedLine (sv_read s) str = Inr (str @ strip_cont line)"
    and msg: "msg = error_prefix e ix (is_connected s) @ strip_cont line @ [APOS] @ (if e > 0 then '' '' @ strerr e else [])"
    and spec: "serve conn req err strerr (resolver s, is_connected s) line
      = (let (ws, r') = err r msg in (ws, r', is_connected s))"
  shows "answers strerr s line (error_reply strerr vt e ix (s\<lparr>resolver := r\<rparr>))"
  using error_reply_line [of "s\<lparr>resolver := r\<rparr>" "strip_cont line" msg e ix strerr] lexed
  unfolding answers_def spec by (auto simp: msg split: prod.split)

lemma hello_answers:
  assumes lexed: "\<And>str. LexedLine (sv_read s) str = Inr (str @ strip_cont line)"
    and line: "lex_line line = Some (''HELLO'' # args)"
  shows "answers strerr s line
    (bind_res (dispatch vt (rc_num RC_CONNECT) (''HELLO'' # args) s) (\<lambda>(e, s').
       if e \<noteq> 0 then error_reply strerr vt e (rc_num RC_CONNECT) s' else Inr s'))"
proof (cases "is_connected s")
  case True
  have "decode (''HELLO'' # args) = BadHello \<or> (\<exists>v a i. decode (''HELLO'' # args) = Hello v a i)"
    using hello_connect [of args s "''HELLO''"] by (auto simp: decode_def split: decoded.splits)
  then show ?thesis
    using True error_answers [OF lexed refl, where r = "resolver s" and e = "-1" and ix = 0]
    by (auto simp: dispatch_def line error_prefix_def complaint_def Let_def)
next
  case False
  note hello = hello_connect [of args s "''HELLO''"]
  show ?thesis
  proof (cases "decode_hello args")
    case BadHello
    then show ?thesis
      using False hello error_answers [OF lexed refl, where r = "resolver s" and e = "-1" and ix = 0]
      by (auto simp: dispatch_def line decode_def error_prefix_def complaint_def Let_def)
  next
    case (Hello v a i)
    show ?thesis
    proof (cases "conn (resolver s) v a i")
      case (Replies ws r c)
      then show ?thesis
        using False hello Hello
        by (auto simp: dispatch_def answers_def line decode_def obeys_connect_def)
    next
      case (Fails e r)
      then show ?thesis
        using False hello Hello error_answers [OF lexed refl, where r = r and e = "-1" and ix = 0]
        by (auto simp: dispatch_def line decode_def obeys_connect_def error_prefix_def complaint_def Let_def)
    qed
  qed (use hello in auto)
qed

lemma request_answers:
  assumes lexed: "\<And>str. LexedLine (sv_read s) str = Inr (str @ strip_cont line)"
    and line: "lex_line line = Some (k # args)"
    and k: "k = ''MODULE-REPO'' \<or> k = ''MODULE-EXPORT'' \<or> k = ''MODULE-IMPORT'' \<or> k = ''MODULE-COMPILED''
      \<or> k = ''INCLUDE-TRANSLATE'' \<or> k = ''INVOKE''"
    and ix: "ix = find_request (map fst (requestTable vt)) k (rc_num RC_HWM)"
  shows "answers strerr s line
    (bind_res (dispatch vt ix (k # args) s) (\<lambda>(e, s').
       if e \<noteq> 0 then error_reply strerr vt e ix s' else Inr s'))"
proof -
  have ix0: "0 < ix" "ix < rc_num RC_HWM" using k unfolding ix find_request_table by auto
  obtain fn where fn: "snd (requestTable vt ! ix) = Some fn"
      "matches req s (decode (k # args)) (fn s (k # args))"
    using table_request [OF k, of s args] unfolding ix by blast
  have fails: "answers strerr s line (error_reply strerr vt e ix (s\<lparr>resolver := r\<rparr>))"
    if "serve conn req err strerr (resolver s, is_connected s) line
      = (let (ws, r') = err r (error_prefix e ix (is_connected s) @ strip_cont line @ [APOS]
           @ (if e > 0 then '' '' @ strerr e else [])) in (ws, r', is_connected s))" for e r
    by (rule error_answers [OF lexed refl that])
  have "decode (k # args) = BadRequest \<or> (\<exists>q. decode (k # args) = Request q)"
    using fn(2) by (auto simp: matches_def split: decoded.splits)
  then show ?thesis
  proof (elim disjE exE)
    assume bad: "decode (k # args) = BadRequest"
    then have "dispatch vt ix (k # args) s = Inr (-1, s)"
      using fn ix0 by (auto simp: dispatch_def)
    then show ?thesis
      using fails [where e = "-1" and r = "resolver s"] ix0 bad by (auto simp: line error_prefix_def complaint_def)
  next
    fix q assume q: "decode (k # args) = Request q"
    show ?thesis
    proof (cases "is_connected s")
      case False
      then have "dispatch vt ix (k # args) s = Inr (-1, s)" using ix0 by (auto simp: dispatch_def)
      then show ?thesis
        using fails [where e = "-1" and r = "resolver s"] False ix0 q by (auto simp: line error_prefix_def complaint_def)
    next
      case True
      then have d: "dispatch vt ix (k # args) s = fn s (k # args)" using ix0 fn(1) by (auto simp: dispatch_def)
      show ?thesis
      proof (cases "req (resolver s) q")
        case (Replies ws r c)
        then show ?thesis
          using fn(2) q True by (auto simp: d obeys_def answers_def line)
      next
        case (Fails e r)
        then have "dispatch vt ix (k # args) s = Inr (e, s\<lparr>resolver := r\<rparr>)" "e \<noteq> 0"
          using fn(2) q True by (auto simp: d obeys_def)
        then show ?thesis
          using fails [where e = e and r = r] ix0 True Fails q by (auto simp: line error_prefix_def complaint_def)
      qed
    qed
  qed
qed

lemma process_line_answers:
  assumes at: "readable (sv_read s)" "\<not> IsAtEnd (sv_read s)"
    and first: "lastBol (sv_read s) = 0 \<Longrightarrow> next_line (sv_read s) \<noteq> [] \<and> next_line (sv_read s) \<noteq> [CONTINUE]"
  shows "answers strerr (s\<lparr>sv_read := skip_line (sv_read s)\<rparr>) (next_line (sv_read s)) (process_line strerr vt s)"
proof -
  let ?s = "s\<lparr>sv_read := skip_line (sv_read s)\<rparr>" and ?line = "next_line (sv_read s)"
  have lexed: "LexedLine (sv_read ?s) str = Inr (str @ strip_cont ?line)" for str
    using LexedLine_line [OF at] first by auto
  have unknown: "answers strerr ?s ?line (error_reply strerr vt 0 ix ?s)"
    if "rc_num RC_HWM \<le> ix" "decode (case lex_line ?line of None \<Rightarrow> [] | Some ws \<Rightarrow> ws) = Unrecognized" for ix
    using error_answers [OF lexed refl, where r = "resolver ?s" and e = 0 and ix = ix] that
    by (simp add: error_prefix_def complaint_def Let_def)
  consider "lex_line ?line = None" | "lex_line ?line = Some []" | k args where "lex_line ?line = Some (k # args)"
    by (metis neq_Nil_conv option.exhaust)
  then show ?thesis
  proof cases
    case 3
    define ix where "ix = find_request (map fst (requestTable vt)) k (rc_num RC_HWM)"
    have step: "process_line strerr vt s = (if ix \<ge> rc_num RC_HWM then error_reply strerr vt 0 ix ?s
      else bind_res (dispatch vt ix (k # args) ?s) (\<lambda>(e, s').
        if e \<noteq> 0 then error_reply strerr vt e ix s' else Inr s'))"
      using Lex_line [OF at] 3
      by (simp add: process_line_def ix_def lex_result_def bind_res_assoc Let_def case_prod_unfold del: rc_num.simps cong: if_cong)
    show ?thesis
    proof (cases "ix = rc_num RC_CONNECT \<or> ix \<ge> rc_num RC_HWM")
      case True
      then have "k = ''HELLO'' \<and> ix = rc_num RC_CONNECT \<or> decode (k # args) = Unrecognized \<and> ix \<ge> rc_num RC_HWM"
        unfolding ix_def find_request_table by (auto simp: decode_def split: if_splits)
      then show ?thesis
        using hello_answers [OF lexed, of args strerr] 3 unknown [of ix] step
        by (elim disjE) (simp_all cong: if_cong)
    next
      case False
      then have k: "k = ''MODULE-REPO'' \<or> k = ''MODULE-EXPORT'' \<or> k = ''MODULE-IMPORT'' \<or> k = ''MODULE-COMPILED''
        \<or> k = ''INCLUDE-TRANSLATE'' \<or> k = ''INVOKE''"
        unfolding ix_def find_request_table by (auto split: if_splits)
      then show ?thesis
        using request_answers [OF lexed 3 k ix_def, of strerr] step False by simp
    qed
  qed (use Lex_line [OF at] unknown [of "rc_num RC_HWM"] in
      \<open>simp_all add: process_line_def lex_result_def decode_def Let_def\<close>)
qed

text \<open>
  The loop. On a block of complete lines it returns, has consumed the block, and has
  given one reply for each line, the replies of the abstract server in order.
\<close>

definition abstract_replies ::
  "(int \<Rightarrow> bytes) \<Rightarrow> 'r Server \<Rightarrow> bytes list \<Rightarrow> bytes list list \<times> 'r \<times> bool" where
  "abstract_replies strerr s lines = serve_all (serve conn req err strerr) (resolver s, is_connected s) lines"

lemma process_loop_answers:
  assumes "readable (sv_read s)"
    and "lastBol (sv_read s) = 0 \<Longrightarrow> next_line (sv_read s) \<noteq> [] \<and> next_line (sv_read s) \<noteq> [CONTINUE]"
    and "holds_block ls (sv_write s)"
    and "abstract_replies strerr s (lines_of (sv_read s)) = (wss, r', c')"
  shows "\<exists>w. process_loop strerr vt s = Some (Inr (s\<lparr>sv_read := at_end (sv_read s), sv_write := w,
      resolver := r', is_connected := c'\<rparr>)) \<and> holds_block (ls @ wss) w \<and> length wss = length (lines_of (sv_read s))"
  using assms
proof (induction "length (buffer (sv_read s)) - lastBol (sv_read s)" arbitrary: s ls wss rule: less_induct)
  case less
  show ?case
  proof (cases "IsAtEnd (sv_read s)")
    case True
    then show ?thesis
      using less.prems
      by (subst process_loop.simps)
        (auto simp: abstract_replies_def lines_of_end at_end_end intro!: exI [of _ "sv_write s"])
  next
    case False
    note at = less.prems(1) False
    let ?s = "s\<lparr>sv_read := skip_line (sv_read s)\<rparr>"
    obtain s' where s': "process_line strerr vt s = Inr s'"
      "answers strerr ?s (next_line (sv_read s)) (Inr s')"
      using process_line_answers [OF at, of strerr] less.prems(2) by (auto simp: answers_def)
    obtain ws r1 c1 where step: "serve conn req err strerr (resolver s, is_connected s) (next_line (sv_read s)) = (ws, r1, c1)"
      by (metis prod_cases3)
    obtain vss where rest: "serve_all (serve conn req err strerr) (r1, c1) (lines_of (skip_line (sv_read s))) = (vss, r', c')"
      and wss: "wss = ws # vss"
      using less.prems(4) step by (auto simp: abstract_replies_def lines_of_line [OF at] split: prod.splits)
    obtain w where w: "s' = ?s\<lparr>sv_write := w, resolver := r1, is_connected := c1\<rparr>" "holds_block (ls @ [ws]) w"
      using s'(2) step less.prems(3) by (auto simp: answers_def answered_def)
    have shorter: "length (buffer (sv_read s')) - lastBol (sv_read s') < length (buffer (sv_read s)) - lastBol (sv_read s)"
      using at by (auto simp: w skip_line_def readable_def IsAtEnd_def)
    have readable': "readable (sv_read s')" using skip_line_readable [OF at] by (simp add: w)
    have inside: "lastBol (sv_read s') = 0 \<Longrightarrow> next_line (sv_read s') \<noteq> [] \<and> next_line (sv_read s') \<noteq> [CONTINUE]"
      by (simp add: w skip_line_def)
    have rest': "abstract_replies strerr s' (lines_of (sv_read s')) = (vss, r', c')"
      using rest by (simp add: w abstract_replies_def)
    have held: "holds_block (ls @ [ws]) (sv_write s')" using w by simp
    obtain w' where "process_loop strerr vt s' = Some (Inr (s'\<lparr>sv_read := at_end (sv_read s'), sv_write := w',
      resolver := r', is_connected := c'\<rparr>)) \<and> holds_block ((ls @ [ws]) @ vss) w' \<and> length vss = length (lines_of (sv_read s'))"
      using less.hyps [OF shorter readable' inside held rest'] by blast
    then show ?thesis
      using False s'(1) by (subst process_loop.simps) (auto simp: w wss lines_of_line [OF at])
  qed
qed

lemma ProcessRequests_answers:
  assumes "readable (sv_read s)"
    and "lastBol (sv_read s) = 0 \<Longrightarrow> next_line (sv_read s) \<noteq> [] \<and> next_line (sv_read s) \<noteq> [CONTINUE]"
    and "holds_block ls (sv_write s)"
    and "abstract_replies strerr s (lines_of (sv_read s)) = (wss, r', c')"
  shows "\<exists>w. ProcessRequests strerr vt s = Inr (s\<lparr>direction := PROCESSING, sv_read := at_end (sv_read s),
      sv_write := w, resolver := r', is_connected := c'\<rparr>) \<and> holds_block (ls @ wss) w
      \<and> length wss = length (lines_of (sv_read s))"
  using process_loop_answers [of "s\<lparr>direction := PROCESSING\<rparr>" ls strerr wss r' c'] assms
  by (auto simp: ProcessRequests_def abstract_replies_def)

end

section \<open>Direct connections\<close>

text \<open>For a direct connection the resolver must also become ready without touching the server.\<close>

locale direct_contract = resolver_contract +
  fixes wait :: "'a \<Rightarrow> 'a"
  assumes wait_law: "vWaitUntilReady vt s = Inr (s\<lparr>resolver := wait (resolver s)\<rparr>)"
begin

lemma DirectProcess_answers:
  assumes "readable from_buf" "\<not> IsAtEnd from_buf"
    and "lastBol from_buf = 0 \<Longrightarrow> next_line from_buf \<noteq> [] \<and> next_line from_buf \<noteq> [CONTINUE]"
    and idle: "buffer (sv_write s) = []"
    and replies: "abstract_replies strerr s (lines_of from_buf) = (wss, r', c')"
  shows "\<exists>s' b. DirectProcess strerr vt s from_buf to_buf = Inr (s', PrepareToRead (sv_read s), b)
    \<and> remaining wss b \<and> sv_write s' = to_buf \<and> resolver s' = wait r' \<and> is_connected s' = c'
    \<and> length wss = length (lines_of from_buf)"
proof -
  let ?s = "s\<lparr>sv_read := from_buf\<rparr>"
  have held: "holds_block [] (sv_write ?s)" using idle by (simp add: holds_block_def)
  have "abstract_replies strerr ?s (lines_of (sv_read ?s)) = (wss, r', c')"
    using replies by (simp add: abstract_replies_def)
  with ProcessRequests_answers [of ?s "[]" strerr wss r' c'] assms(1,3) held
  obtain w where p: "ProcessRequests strerr vt ?s = Inr (?s\<lparr>direction := PROCESSING, sv_read := at_end from_buf,
      sv_write := w, resolver := r', is_connected := c'\<rparr>)"
    "holds_block wss w" "length wss = length (lines_of from_buf)" by auto
  have "wss \<noteq> []" using p(3) lines_of_line [OF assms(1,2)] by auto
  then have "remaining wss (PrepareToWrite w)" by (intro PrepareToWrite_remaining p(2))
  then show ?thesis using p by (simp add: DirectProcess_def Let_def wait_law)
qed

end

end
