(* ===== verification/ResolverDefault.thy ===== *)
theory ResolverDefault
  imports ServerContract
begin

text \<open>
  The default resolver (\<open>resolver.cc\<close>): the mapping from module and header-unit names to
  CMI file names, the responses to each request, and the probe of the CMI repository. The
  last part interprets the server's contract on it.
\<close>

section \<open>Names\<close>

definition IsDirSep :: "char \<Rightarrow> bool" where
  "IsDirSep c \<longleftrightarrow> c = CHR ''/''"

text \<open>
  \<open>c_at\<close> is \<open>operator[]\<close> on a \<open>std::string\<close>: at the size it reads the terminating NUL.
\<close>

definition c_at :: "bytes \<Rightarrow> nat \<Rightarrow> char res" where
  "c_at s i = (if i < length s then Inr (s ! i) else if i = length s then Inr NUL else Inl OutOfRange)"

definition IsAbsPath :: "bytes \<Rightarrow> bool" where
  "IsAbsPath str \<longleftrightarrow> IsDirSep (case str of [] \<Rightarrow> NUL | c # _ \<Rightarrow> c)"

abbreviation DOT_REPLACE :: char where "DOT_REPLACE \<equiv> CHR '',''"
abbreviation COLON_REPLACE :: char where "COLON_REPLACE \<equiv> CHR ''-''"

definition REPO_DIR :: bytes where
  "REPO_DIR = ''cmi.cache''"

definition GetCMISuffix :: "bytes option" where
  "GetCMISuffix = Some ''cmi''"

text \<open>The loop that replaces dot-dot directories; \<open>ix\<close> is the position of the search.\<close>

function dots_loop :: "bytes \<Rightarrow> nat \<Rightarrow> bytes res" where
  "dots_loop result ix =
     (let ix = find_from CHR ''.'' result ix in
      if \<not> ix < length result then Inr result
      else if ix + 2 > length result then Inr result
      else bind_res (c_at result (ix + 1)) (\<lambda>c.
        if c \<noteq> CHR ''.'' then dots_loop result (ix + 1)
        else bind_res (if ix = 0 then Inl OutOfRange else c_at result (ix - 1)) (\<lambda>c.
          if \<not> IsDirSep c then dots_loop result (ix + 1)
          else bind_res (c_at result (ix + 2)) (\<lambda>c.
            if \<not> IsDirSep c then dots_loop result (ix + 1)
            else dots_loop (result[ix := DOT_REPLACE, ix + 1 := DOT_REPLACE]) (ix + 1)))))"
  by pat_completeness auto
termination
proof (relation "measure (\<lambda>(result, ix). length result - ix)")
qed (auto simp: find_from_def)

declare dots_loop.simps [simp del]

text \<open>
  \<open>GetCMIName\<close>, with the result of the virtual \<open>GetCMISuffix\<close> as argument. A name with no
  character makes \<open>module.front ()\<close> undefined.
\<close>

definition GetCMIName :: "bytes option \<Rightarrow> bytes \<Rightarrow> bytes res" where
  "GetCMIName cmi_suffix module =
     bind_res
       (if IsAbsPath (c_str module) then Inr (True, True)
        else if module = [] then Inl OutOfRange
        else if hd module = CHR ''.'' then
          bind_res (c_at module 1) (\<lambda>c. Inr (IsDirSep c, False))
        else Inr (False, False))
       (\<lambda>(is_header, is_abs).
          let result = (if is_abs then ''.'' @ module else module) in
          bind_res
            (if is_header then
               (let result = (if \<not> is_abs then result[0 := DOT_REPLACE] else result)
                in dots_loop result 1)
             else
               (let colon = find_from CHR '':'' result 0
                in Inr (if colon < length result then result[colon := COLON_REPLACE] else result)))
            (\<lambda>result.
               Inr (case cmi_suffix of
                      Some sfx \<Rightarrow> result @ ''.'' @ sfx
                    | None \<Rightarrow> result)))"

section \<open>Requests\<close>

text \<open>
  The resolver object has no data of its own; its state here is what its probe of the
  repository sees: the answer of \<open>open\<close> on the repository directory, \<open>st_mode\<close> of a
  successful \<open>fstatat\<close>, and the descriptors the process holds.
\<close>

record os =
  os_open :: int
  os_fstatat :: "int \<Rightarrow> bytes \<Rightarrow> 32 word option"
  open_fds :: "int list"

definition S_ISREG :: "32 word \<Rightarrow> bool" where
  "S_ISREG m \<longleftrightarrow> m AND 0xF000 = 0x8000"

definition open_repo :: "os \<Rightarrow> int \<times> os" where
  "open_repo w = (os_open w, if os_open w \<ge> 0 then w\<lparr>open_fds := os_open w # open_fds w\<rparr> else w)"

definition close_fd :: "int \<Rightarrow> os \<Rightarrow> os" where
  "close_fd fd w = w\<lparr>open_fds := remove1 fd (open_fds w)\<rparr>"

definition WaitUntilReady :: "os Server \<Rightarrow> os Server res" where
  "WaitUntilReady s = Inr s"

definition Resolver_ErrorResponse :: "os Server \<Rightarrow> bytes \<Rightarrow> os Server res" where
  "Resolver_ErrorResponse server msg = Inr (ErrorResponse_string msg server)"

definition Resolver_ConnectRequest ::
  "os Server \<Rightarrow> 32 word \<Rightarrow> bytes \<Rightarrow> bytes \<Rightarrow> (os option \<times> os Server) res" where
  "Resolver_ConnectRequest s version agent ident =
     (let s' = (if version > Version then ErrorResponse ''version mismatch'' None s
                else ConnectResponse ''default'' None s)
      in Inr (Some (resolver s), s'))"

definition Resolver_ModuleRepoRequest :: "os Server \<Rightarrow> (int \<times> os Server) res" where
  "Resolver_ModuleRepoRequest s = Inr (0, PathnameResponse REPO_DIR None s)"

definition Resolver_ModuleExportRequest ::
  "(bytes \<Rightarrow> bytes res) \<Rightarrow> os Server \<Rightarrow> Flags \<Rightarrow> bytes \<Rightarrow> (int \<times> os Server) res" where
  "Resolver_ModuleExportRequest cmi_name s flags module =
     bind_res (cmi_name module) (\<lambda>cmi. Inr (0, PathnameResponse_string cmi s))"

definition Resolver_ModuleImportRequest ::
  "(bytes \<Rightarrow> bytes res) \<Rightarrow> os Server \<Rightarrow> Flags \<Rightarrow> bytes \<Rightarrow> (int \<times> os Server) res" where
  "Resolver_ModuleImportRequest cmi_name s flags module =
     bind_res (cmi_name module) (\<lambda>cmi. Inr (0, PathnameResponse_string cmi s))"

definition Resolver_ModuleCompiledRequest :: "os Server \<Rightarrow> Flags \<Rightarrow> bytes \<Rightarrow> (int \<times> os Server) res" where
  "Resolver_ModuleCompiledRequest s flags module = Inr (0, OKResponse s)"

definition Resolver_IncludeTranslateRequest ::
  "(bytes \<Rightarrow> bytes res) \<Rightarrow> os Server \<Rightarrow> Flags \<Rightarrow> bytes \<Rightarrow> (int \<times> os Server) res" where
  "Resolver_IncludeTranslateRequest cmi_name s flags include =
     bind_res (cmi_name include) (\<lambda>cmi.
       let (fd_dir, w) = open_repo (resolver s);
           xlate = (fd_dir \<ge> 0 \<and>
             (case os_fstatat w fd_dir (c_str cmi) of Some st_mode \<Rightarrow> S_ISREG st_mode | None \<Rightarrow> False));
           w = (if fd_dir \<ge> 0 then close_fd fd_dir w else w);
           s = s\<lparr>resolver := w\<rparr>
       in Inr (0, if xlate then PathnameResponse_string cmi s else BoolResponse False s))"

text \<open>
  The variant for systems without \<open>fstatat\<close>. \<open>st_mode\<close> is what \<open>stat\<close> finds at the path;
  when \<open>stat\<close> fails the code goes on to read \<open>statbuf\<close>, which is then uninitialised, and
  \<open>garbage\<close> is what it holds.
\<close>

definition IncludeTranslate_stat ::
  "(bytes \<Rightarrow> 32 word option) \<Rightarrow> 32 word \<Rightarrow> (bytes \<Rightarrow> bytes res) \<Rightarrow> os Server \<Rightarrow> Flags \<Rightarrow> bytes
   \<Rightarrow> (int \<times> os Server) res" where
  "IncludeTranslate_stat stat garbage cmi_name s flags include =
     bind_res (cmi_name include) (\<lambda>cmi.
       let path = REPO_DIR @ ''/'' @ cmi;
           (ok, st_mode) = (case stat (c_str path) of Some m \<Rightarrow> (True, m) | None \<Rightarrow> (False, garbage));
           xlate = (ok \<or> S_ISREG st_mode)
       in Inr (0, if xlate then PathnameResponse_string cmi s else BoolResponse False s))"

definition Resolver_InvokeSubProcessRequest :: "os Server \<Rightarrow> bytes list \<Rightarrow> (int \<times> os Server) res" where
  "Resolver_InvokeSubProcessRequest s args = Inr (0, ErrorResponse ''unimplemented'' None s)"

text \<open>The virtual functions of a class that overrides at most \<open>GetCMIName\<close> and \<open>GetCMISuffix\<close>.\<close>

definition Resolver_vtable :: "(bytes \<Rightarrow> bytes res) \<Rightarrow> os Resolver_vt" where
  "Resolver_vtable cmi_name =
     \<lparr>vWaitUntilReady = WaitUntilReady, vErrorResponse = Resolver_ErrorResponse,
      vConnectRequest = Resolver_ConnectRequest, vModuleRepoRequest = Resolver_ModuleRepoRequest,
      vModuleExportRequest = Resolver_ModuleExportRequest cmi_name,
      vModuleImportRequest = Resolver_ModuleImportRequest cmi_name,
      vModuleCompiledRequest = Resolver_ModuleCompiledRequest,
      vIncludeTranslateRequest = Resolver_IncludeTranslateRequest cmi_name,
      vInvokeSubProcessRequest = Resolver_InvokeSubProcessRequest\<rparr>"

definition default_resolver :: "os Resolver_vt" where
  "default_resolver = Resolver_vtable (GetCMIName GetCMISuffix)"

section \<open>What the names are\<close>

text \<open>
  The reference for the loop: character by character, with \<open>p\<close> telling whether a
  separator has just been passed; and then component by component.
\<close>

fun dots :: "bool \<Rightarrow> bytes \<Rightarrow> bytes" where
  "dots p [] = []"
| "dots p (c # cs) =
     (case cs of
        d # e # rest \<Rightarrow>
          (if p \<and> c = CHR ''.'' \<and> d = CHR ''.'' \<and> IsDirSep e then DOT_REPLACE # DOT_REPLACE # e # dots True rest
           else c # dots (IsDirSep c) cs)
      | _ \<Rightarrow> c # dots (IsDirSep c) cs)"

declare dots.simps(2) [simp del]

text \<open>A dot-dot directory begins at the head of the string.\<close>

definition dotdot :: "bytes \<Rightarrow> bool" where
  "dotdot s \<longleftrightarrow> (\<exists>e rest. s = CHR ''.'' # CHR ''.'' # e # rest \<and> IsDirSep e)"

lemma dotdot_Cons [simp]:
  "\<not> dotdot []" "\<not> dotdot [c]" "\<not> dotdot [c, d]" "c \<noteq> CHR ''.'' \<Longrightarrow> \<not> dotdot (c # s)"
  "d \<noteq> CHR ''.'' \<Longrightarrow> \<not> dotdot (c # d # s)"
  "dotdot (CHR ''.'' # CHR ''.'' # e # rest) \<longleftrightarrow> IsDirSep e"
  by (auto simp: dotdot_def)

lemma dots_Cons:
  "dots p (c # cs) = (if p \<and> dotdot (c # cs) then DOT_REPLACE # dots False (DOT_REPLACE # tl cs)
     else c # dots (IsDirSep c) cs)"
  by (cases cs; cases "tl cs") (auto simp: dots.simps(2) dotdot_def IsDirSep_def split: list.split)

definition after_sep :: "bytes \<Rightarrow> bool" where
  "after_sep pre \<longleftrightarrow> IsDirSep (last pre)"

lemma dots_plain: "CHR ''.'' \<notin> set u \<Longrightarrow> dots p (u @ s) = u @ dots (if u = [] then p else after_sep u) s"
  by (induction u arbitrary: p) (auto simp: after_sep_def dots_Cons)

lemma sep_not_dot [simp]: "\<not> IsDirSep CHR ''.''" "\<not> IsDirSep NUL" "\<not> IsDirSep CHR '',''"
  by (simp_all add: IsDirSep_def)

lemma c_at_append [simp]: "c_at (xs @ ys) (length xs + k) = c_at ys k"
  by (auto simp: c_at_def nth_append)

lemma c_at_last: "xs \<noteq> [] \<Longrightarrow> c_at (xs @ ys) (length xs - 1) = Inr (last xs)"
  by (cases xs rule: rev_cases) (simp_all add: c_at_def nth_append)

lemma find_from_append: "find_from c (xs @ ys) (length xs) = length xs + find_from c ys 0"
  by (simp add: find_from_def)

lemma find_from_absent: "c \<notin> set ys \<Longrightarrow> find_from c ys 0 = length ys"
  unfolding find_from_def by (induction ys) auto

text \<open>One step of the loop, with the next dot right after \<open>pre\<close>.\<close>

lemma dots_loop_at_dot:
  assumes pre: "pre \<noteq> []" and n: "n \<le> length pre" "CHR ''.'' \<notin> set (drop n pre)"
  shows "dots_loop (pre @ CHR ''.'' # v) n =
    (if v = [] then Inr (pre @ ''.'')
     else if after_sep pre \<and> dotdot (CHR ''.'' # v)
     then dots_loop (pre @ DOT_REPLACE # DOT_REPLACE # tl v) (length pre + 1)
     else dots_loop (pre @ CHR ''.'' # v) (length pre + 1))"
proof -
  have find: "find_from CHR ''.'' (pre @ CHR ''.'' # v) n = length pre"
    using find_from_hit [OF n(2), of "take n pre" v] n(1) by (simp flip: append_assoc)
  have at: "c_at (pre @ CHR ''.'' # v) (length pre + 1) = c_at v 0"
    "c_at (pre @ CHR ''.'' # v) (length pre + 2) = c_at v 1"
    by (auto simp: c_at_def nth_append)
  note eq = dots_loop.simps [of "pre @ CHR ''.'' # v" n, unfolded Let_def find at c_at_last [OF pre]]
  show ?thesis
  proof (cases v)
    case (Cons d w)
    then show ?thesis
      unfolding eq using pre
      by (cases w) (auto simp: after_sep_def c_at_def list_update_append dotdot_def)
  next
    case Nil
    then show ?thesis using eq by simp
  qed
qed

lemma dots_loop_spec: "pre \<noteq> [] \<Longrightarrow> dots_loop (pre @ s) (length pre) = Inr (pre @ dots (after_sep pre) s)"
proof (induction "length s" arbitrary: pre s rule: less_induct)
  case less
  show ?case
  proof (cases "CHR ''.'' \<in> set s")
    case False
    then have "dots (after_sep pre) s = s" using dots_plain [of s _ "[]"] by simp
    then show ?thesis
      using False by (subst dots_loop.simps) (simp add: find_from_append find_from_absent)
  next
    case True
    then obtain u v where s: "s = u @ CHR ''.'' # v" and u: "CHR ''.'' \<notin> set u" by (metis split_list_first)
    let ?pre = "pre @ u"
    have plain: "dots (after_sep pre) s = u @ dots (after_sep ?pre) (CHR ''.'' # v)"
      using dots_plain [OF u, of "after_sep pre" "CHR ''.'' # v"] by (cases u rule: rev_cases) (auto simp: s after_sep_def)
    have IH: "dots_loop (?pre @ c # t) (length ?pre + 1) = Inr (?pre @ c # dots (IsDirSep c) t)"
      if "length t < length s" for c t
      using less.hyps [OF that, of "?pre @ [c]"] by (simp add: after_sep_def)
    have "dots_loop (?pre @ CHR ''.'' # v) (length pre) = Inr (?pre @ dots (after_sep ?pre) (CHR ''.'' # v))"
    proof (cases "after_sep ?pre \<and> dotdot (CHR ''.'' # v)")
      case True
      then have "length (DOT_REPLACE # tl v) < length s" "v \<noteq> []" by (auto simp: dotdot_def s)
      then show ?thesis
        using True less.prems u IH [of "DOT_REPLACE # tl v" DOT_REPLACE]
        by (subst dots_loop_at_dot) (simp_all add: dots_Cons)
    next
      case False
      then show ?thesis
        using less.prems u IH [of v "CHR ''.''"]
        by (subst dots_loop_at_dot) (auto simp: dots_Cons s)
    qed
    then show ?thesis unfolding plain by (simp add: s)
  qed
qed

text \<open>The parts of a path between separators.\<close>

fun comps :: "bytes \<Rightarrow> bytes list" where
  "comps [] = [[]]"
| "comps (c # cs) = (if IsDirSep c then [] # comps cs else (c # hd (comps cs)) # tl (comps cs))"

definition undot :: "bytes \<Rightarrow> bytes" where
  "undot w = (if w = ''..'' then [DOT_REPLACE, DOT_REPLACE] else w)"

text \<open>All components but the last, which names the file, are directories.\<close>

definition undot_dirs :: "bytes list \<Rightarrow> bytes list" where
  "undot_dirs cs = map undot (butlast cs) @ [last cs]"

lemma comps_nonempty [simp]: "comps s \<noteq> []"
  by (cases s) auto

lemma comps_append_sep: "IsDirSep c \<Longrightarrow> comps (x @ c # y) = comps x @ comps y"
  by (induction x) auto

lemma comps_append:
  "comps (x @ y) = butlast (comps x) @ (last (comps x) @ hd (comps y)) # tl (comps y)"
proof (induction x)
  case (Cons c x)
  then show ?case by (cases "comps x"; cases "tl (comps x)") auto
qed simp

lemma comps_plain: "(\<forall>c \<in> set w. \<not> IsDirSep c) \<Longrightarrow> comps w = [w]"
  by (induction w) auto

fun undot_rest :: "bool \<Rightarrow> bytes list \<Rightarrow> bytes list" where
  "undot_rest p (c # d # cs) = (if p then undot c else c) # undot_rest True (d # cs)"
| "undot_rest p cs = cs"

lemma undot_rest_True: "cs \<noteq> [] \<Longrightarrow> undot_rest True cs = undot_dirs cs"
  by (induction True cs rule: undot_rest.induct) (auto simp: undot_dirs_def)

lemma undot_rest_Cons: "cs \<noteq> [] \<Longrightarrow> undot_rest p (c # cs) = (if p then undot c else c) # undot_rest True cs"
  by (cases cs) auto

lemma dotdot_comps: "dotdot s \<longleftrightarrow> tl (comps s) \<noteq> [] \<and> hd (comps s) = ''..''"
proof (cases "\<exists>d e rest. s = d # e # rest")
  case True
  then obtain d e rest where "s = d # e # rest" by blast
  then show ?thesis by (cases rest) (auto simp: dotdot_def IsDirSep_def)
next
  case False
  then show ?thesis by (cases s; cases "tl s") (auto simp: dotdot_def)
qed

lemma comps_dots: "comps (dots p s) = undot_rest p (comps s)"
proof (induction "length s" arbitrary: p s rule: less_induct)
  case less
  show ?case
  proof (cases s)
    case (Cons c cs)
    obtain h t where ht: "comps cs = h # t" by (cases "comps cs") auto
    show ?thesis
    proof (cases "p \<and> dotdot s")
      case True
      then obtain e rest where "s = CHR ''.'' # CHR ''.'' # e # rest" "IsDirSep e" by (auto simp: dotdot_def)
      with True show ?thesis
        using less.hyps [of rest True] by (auto simp: dots_Cons undot_def undot_rest_Cons)
    next
      case False
      then have d: "dots p s = c # dots (IsDirSep c) cs" by (auto simp: Cons dots_Cons)
      have IH: "comps (dots q cs) = undot_rest q (h # t)" for q using less.hyps [of cs q] by (simp add: Cons ht)
      from False have "p \<longrightarrow> \<not> IsDirSep c \<longrightarrow> t = [] \<or> undot (c # h) = c # h"
        by (auto simp: dotdot_comps Cons ht undot_def)
      then show ?thesis
        unfolding d using IH [of True] IH [of False]
        by (cases t) (auto simp: Cons ht undot_rest_Cons undot_def)
    qed
  qed simp
qed

definition suffix_bytes :: "bytes option \<Rightarrow> bytes" where
  "suffix_bytes sfx = (case sfx of None \<Rightarrow> [] | Some x \<Rightarrow> ''.'' @ x)"

lemma GetCMIName_abs: "GetCMIName sfx (CHR ''/'' # n) = Inr (''./'' @ dots True n @ suffix_bytes sfx)"
  using dots_loop_spec [of "''.''" "CHR ''/'' # n"]
  by (simp add: GetCMIName_def IsAbsPath_def c_str_def IsDirSep_def after_sep_def dots_Cons dotdot_def
      suffix_bytes_def Let_def split: option.split)

lemma GetCMIName_rel: "GetCMIName sfx (''./'' @ n) = Inr ('',/'' @ dots True n @ suffix_bytes sfx)"
  using dots_loop_spec [of "'',''" "CHR ''/'' # n"]
  by (simp add: GetCMIName_def IsAbsPath_def c_str_def IsDirSep_def after_sep_def dots_Cons dotdot_def
      c_at_def suffix_bytes_def Let_def split: option.split)

text \<open>A name that is not that of a header unit.\<close>

definition named_module :: "bytes \<Rightarrow> bool" where
  "named_module n \<longleftrightarrow> n \<noteq> [] \<and> hd n \<noteq> CHR ''/'' \<and> take 2 n \<noteq> ''./''"

definition decolon :: "bytes \<Rightarrow> bytes" where
  "decolon n = (let k = length (takeWhile (\<lambda>c. c \<noteq> CHR '':'') n)
    in if k < length n then n[k := COLON_REPLACE] else n)"

lemma GetCMIName_module: "named_module n \<Longrightarrow> GetCMIName sfx n = Inr (decolon n @ suffix_bytes sfx)"
  by (cases n; cases "tl n")
    (auto simp: named_module_def GetCMIName_def IsAbsPath_def c_str_def IsDirSep_def c_at_def decolon_def
      suffix_bytes_def find_from_def Let_def split: option.split)

lemma name_cases:
  assumes "n \<noteq> []"
  obtains m where "n = CHR ''/'' # m" | m where "n = ''./'' @ m" | "named_module n"
  using assms by (cases n; cases "tl n") (auto simp: named_module_def)

lemma GetCMIName_total: "n \<noteq> [] \<Longrightarrow> \<exists>cmi. GetCMIName sfx n = Inr cmi"
  by (erule name_cases) (auto simp: GetCMIName_abs GetCMIName_rel [unfolded append_Cons append_Nil] GetCMIName_module)

section \<open>The names are safe and distinct\<close>

text \<open>A path that cannot leave the directory it is relative to.\<close>

definition inside :: "bytes \<Rightarrow> bool" where
  "inside path \<longleftrightarrow> \<not> IsAbsPath path \<and> ''..'' \<notin> set (comps path)"

abbreviation cmi_suffix :: bytes where "cmi_suffix \<equiv> ''.cmi''"

lemma suffix_cmi [simp]: "suffix_bytes GetCMISuffix = cmi_suffix"
  by (simp add: suffix_bytes_def GetCMISuffix_def)

lemma comps_suffix: "comps (x @ cmi_suffix) = butlast (comps x) @ [last (comps x) @ cmi_suffix]"
  by (simp add: comps_append IsDirSep_def)

lemma undot_not_dotdot: "undot w \<noteq> ''..''"
  by (simp add: undot_def)

lemma suffix_not_dotdot: "w @ cmi_suffix \<noteq> ''..''"
  by (auto dest: arg_cong [where f = length])

lemma dotdot_not_in_dots: "''..'' \<notin> set (comps (dots True n @ cmi_suffix))"
proof -
  have "''..'' \<notin> set (butlast (comps (dots True n)))"
    using undot_not_dotdot by (auto simp: comps_dots undot_rest_True undot_dirs_def dest: sym)
  then show ?thesis using suffix_not_dotdot by (auto simp: comps_suffix dest: sym)
qed

lemma header_inside:
  "inside (''./'' @ dots True n @ cmi_suffix)" "inside ('',/'' @ dots True n @ cmi_suffix)"
  using dotdot_not_in_dots [of n] by (auto simp: inside_def IsAbsPath_def IsDirSep_def)

lemma decolon_hit: "CHR '':'' \<notin> set u \<Longrightarrow> decolon (u @ CHR '':'' # v) = u @ COLON_REPLACE # v"
  by (simp add: decolon_def list_update_append)

lemma decolon_miss: "CHR '':'' \<notin> set n \<Longrightarrow> decolon n = n"
  using find_from_absent [of "CHR '':''" n] by (simp add: decolon_def find_from_def)

lemma decolon_cases:
  obtains "CHR '':'' \<notin> set n" "decolon n = n"
  | u v where "n = u @ CHR '':'' # v" "CHR '':'' \<notin> set u" "decolon n = u @ COLON_REPLACE # v"
  by (metis decolon_hit decolon_miss split_list_first)

lemma decolon_set: "set (decolon n) \<subseteq> insert COLON_REPLACE (set n)"
  by (rule decolon_cases [of n]) auto

lemma named_inside:
  assumes "named_module n" and "CHR ''/'' \<notin> set n"
  shows "inside (decolon n @ cmi_suffix)"
proof -
  have "CHR ''/'' \<notin> set (decolon n)" using assms(2) decolon_set [of n] by auto
  then have "comps (decolon n @ cmi_suffix) = [decolon n @ cmi_suffix]" by (intro comps_plain) (auto simp: IsDirSep_def)
  moreover have "\<not> IsAbsPath (decolon n @ cmi_suffix)"
    using \<open>CHR ''/'' \<notin> set (decolon n)\<close> by (cases "decolon n") (auto simp: IsAbsPath_def IsDirSep_def)
  ultimately show ?thesis using suffix_not_dotdot by (auto simp: inside_def dest: sym)
qed

lemma join_comps: "join_sep [CHR ''/''] (comps s) = s"
proof (induction s)
  case (Cons c s)
  then show ?case by (cases "comps s") (auto simp: join_sep_Cons IsDirSep_def)
qed simp

lemma undot_dirs_inject:
  assumes "undot_dirs cs = undot_dirs ds" and "cs \<noteq> []" "ds \<noteq> []"
    and "'',,'' \<notin> set (butlast cs)" "'',,'' \<notin> set (butlast ds)"
  shows "cs = ds"
proof -
  have "undot a = undot b \<longleftrightarrow> a = b" if "a \<noteq> '',,''" "b \<noteq> '',,''" for a b
    using that by (auto simp: undot_def)
  then have "inj_on undot (set (butlast cs) \<union> set (butlast ds))"
    using assms(4,5) by (intro inj_onI) (metis UnE)
  then have "butlast cs = butlast ds" "last cs = last ds"
    using assms(1) by (auto simp: undot_dirs_def inj_on_map_eq_map)
  then show ?thesis using assms(2,3) by (metis append_butlast_last_id)
qed

lemma dots_inject:
  assumes "dots True m = dots True n" "'',,'' \<notin> set (butlast (comps m))" "'',,'' \<notin> set (butlast (comps n))"
  shows "m = n"
proof -
  have "undot_dirs (comps m) = undot_dirs (comps n)"
    using arg_cong [OF assms(1), of comps] by (simp add: comps_dots undot_rest_True)
  then have "comps m = comps n"
    by (rule undot_dirs_inject [OF _ comps_nonempty comps_nonempty assms(2,3)])
  from arg_cong [OF this, of "join_sep [CHR ''/'']"] show ?thesis by (simp add: join_comps)
qed

lemma decolon_inject:
  assumes eq: "decolon m = decolon n" and "COLON_REPLACE \<notin> set m" "COLON_REPLACE \<notin> set n"
  shows "m = n"
proof (rule decolon_cases [of m])
  assume m: "decolon m = m"
  then have "COLON_REPLACE \<notin> set (decolon n)" using assms(2) by (simp flip: eq)
  then have "decolon n = n" by (rule_tac decolon_cases [of n]) auto
  then show "m = n" using m eq by simp
next
  fix u v assume m: "m = u @ CHR '':'' # v" "decolon m = u @ COLON_REPLACE # v"
  show "m = n"
  proof (rule decolon_cases [of n])
    assume "decolon n = n"
    then show "m = n" using assms(3) m(2) unfolding eq by auto
  next
    fix x y assume n: "n = x @ CHR '':'' # y" "decolon n = x @ COLON_REPLACE # y"
    have *: "u @ COLON_REPLACE # v = x @ COLON_REPLACE # y" using eq unfolding m(2) n(2) .
    have "u = takeWhile (\<lambda>c. c \<noteq> COLON_REPLACE) (u @ COLON_REPLACE # v)" using m(1) assms(2) by simp
    also have "\<dots> = x" unfolding * using n(1) assms(3) by simp
    finally have "u = x" .
    then show "m = n" using m(1) n(1) * by simp
  qed
qed

text \<open>
  The names the protocol allows: a header unit's name begins with \<open>/\<close> or \<open>./\<close>, a module
  name has no separator. Names that use the replacement characters are left out.
\<close>

definition clean_name :: "bytes \<Rightarrow> bool" where
  "clean_name n \<longleftrightarrow>
     (if take 1 n = ''/'' then '',,'' \<notin> set (butlast (comps (drop 1 n)))
      else if take 2 n = ''./'' then '',,'' \<notin> set (butlast (comps (drop 2 n)))
      else n \<noteq> [] \<and> CHR ''/'' \<notin> set n \<and> COLON_REPLACE \<notin> set n)"

lemma clean_named:
  "named_module n \<Longrightarrow> clean_name n \<longleftrightarrow> CHR ''/'' \<notin> set n \<and> COLON_REPLACE \<notin> set n"
  by (cases n) (auto simp: clean_name_def named_module_def)

lemma cmi_has_sep:
  assumes "clean_name n" and "GetCMIName GetCMISuffix n = Inr cmi"
  shows "CHR ''/'' \<in> set cmi \<longleftrightarrow> \<not> named_module n"
proof (rule name_cases [of n])
  show "n \<noteq> []" using assms(1) by (auto simp: clean_name_def)
next
  assume n: "named_module n"
  then have "CHR ''/'' \<notin> set n" using clean_named [OF n] assms(1) by simp
  then show ?thesis using n assms(2) decolon_set [of n] by (auto simp: GetCMIName_module)
qed (use assms(2) GetCMIName_rel in \<open>auto simp: GetCMIName_abs named_module_def\<close>)

text \<open>The two kinds of header units, which the first character of the CMI name tells apart.\<close>

lemma header_cmi_inject:
  assumes "clean_name m" "clean_name n" "\<not> named_module m" "\<not> named_module n" "m \<noteq> []" "n \<noteq> []"
    and "GetCMIName GetCMISuffix m = GetCMIName GetCMISuffix n"
  shows "m = n"
proof (rule name_cases [OF \<open>m \<noteq> []\<close>]; rule name_cases [OF \<open>n \<noteq> []\<close>])
  fix a b assume "m = CHR ''/'' # a" "n = CHR ''/'' # b"
  then show ?thesis using assms dots_inject [of a b] by (simp add: GetCMIName_abs clean_name_def)
next
  fix a b assume "m = ''./'' @ a" "n = ''./'' @ b"
  then show ?thesis
    using assms dots_inject [of a b] GetCMIName_rel [of GetCMISuffix a] GetCMIName_rel [of GetCMISuffix b]
    by (simp add: clean_name_def)
qed (use assms GetCMIName_rel in \<open>auto simp: GetCMIName_abs\<close>)

end
