(* ===== verification/ResolverServer.thy ===== *)
theory ResolverServer
  imports ResolverDefault
begin

text \<open>
  The default resolver satisfies the server's contract: the interpretation of
  \<open>resolver_contract\<close>, with what the default resolver answers as plain functions, and the
  resulting statements about whole message blocks and about direct connections.
\<close>

section \<open>Each response adds one line\<close>

lemma ErrorResponse_answered:
  "answered s [''ERROR'', c_extent error elen] (resolver s) (is_connected s) (ErrorResponse error elen s)"
  by (auto simp: answered_def ErrorResponse_def Let_def AppendWord_as_string
      intro!: exI [of _ "sv_write (ErrorResponse error elen s)"] buf.keyword_word_line)

lemma OKResponse_answered: "answered s [''OK''] (resolver s) (is_connected s) (OKResponse s)"
  by (auto simp: answered_def OKResponse_def Let_def AppendWord_as_string
      intro!: exI [of _ "sv_write (OKResponse s)"] buf.keyword_line)

lemma PathnameResponse_answered:
  "answered s [''PATHNAME'', c_extent cmi clen] (resolver s) (is_connected s) (PathnameResponse cmi clen s)"
  by (auto simp: answered_def PathnameResponse_def Let_def AppendWord_as_string
      intro!: exI [of _ "sv_write (PathnameResponse cmi clen s)"] buf.keyword_word_line)

lemma BoolResponse_answered:
  "answered s [''BOOL'', if t then ''TRUE'' else ''FALSE''] (resolver s) (is_connected s) (BoolResponse t s)"
  by (auto simp: answered_def BoolResponse_def Let_def AppendWord_as_string
      intro!: exI [of _ "sv_write (BoolResponse t s)"] buf.keyword_word_line)

lemma ConnectResponse_answered:
  "answered s [''HELLO'', to_string 1, c_extent agent alen] (resolver s) True (ConnectResponse agent alen s)"
proof -
  have "holds_block (ls @ [[''HELLO'', to_string 1, c_extent agent alen]]) (sv_write (ConnectResponse agent alen s))"
    if "holds_block ls (sv_write s)" for ls
  proof -
    have "building [] ls ([] @ [''HELLO'']) (AppendWord_string ''HELLO'' False (BeginLine (sv_write s)))"
      by (rule buf.put_partial [OF buf.begin_partial [OF that]]) simp
    from buf.put_partial [OF this, of False "to_string 1"]
    have "building [] ls ([''HELLO''] @ [to_string 1])
      (AppendInteger Version (AppendWord_string ''HELLO'' False (BeginLine (sv_write s))))"
      by (simp add: AppendInteger_def)
    from buf.end_whole [OF buf.put_partial [OF this, of True "c_extent agent alen"]]
    show ?thesis by (simp add: ConnectResponse_def Let_def AppendWord_as_string)
  qed
  then show ?thesis
    by (auto simp: answered_def ConnectResponse_def Let_def
        intro!: exI [of _ "sv_write (ConnectResponse agent alen s)"])
qed

lemma answered_resolver_out: "answered s ws (resolver s) c s' \<Longrightarrow> answered s ws (resolver s) c (s'\<lparr>resolver := resolver s\<rparr>)"
  by (auto simp: answered_def)

section \<open>The answers of the default resolver\<close>

text \<open>
  A class derived from \<open>Resolver\<close> may override the mapping of names; \<open>cmi_value\<close> is the name it
  gives, \<open>cmi_of\<close> that of the default.
\<close>

definition cmi_value :: "(bytes \<Rightarrow> bytes res) \<Rightarrow> bytes \<Rightarrow> bytes" where
  "cmi_value cmi_name n = (case cmi_name n of Inr cmi \<Rightarrow> cmi | Inl _ \<Rightarrow> [])"

definition cmi_of :: "bytes \<Rightarrow> bytes" where
  "cmi_of n = (case GetCMIName GetCMISuffix n of Inr cmi \<Rightarrow> cmi | Inl _ \<Rightarrow> [])"

definition cmi_present :: "os \<Rightarrow> bytes \<Rightarrow> bool" where
  "cmi_present w cmi \<longleftrightarrow> 0 \<le> os_open w
     \<and> (case os_fstatat w (os_open w) (c_str cmi) of Some m \<Rightarrow> S_ISREG m | None \<Rightarrow> False)"

definition default_conn :: "os \<Rightarrow> 32 word \<Rightarrow> bytes \<Rightarrow> bytes \<Rightarrow> os outcome" where
  "default_conn w v agent ident =
     (if v > 1 then Replies [''ERROR'', ''version mismatch''] w False
      else Replies [''HELLO'', to_string 1, ''default''] w True)"

definition named_req :: "(bytes \<Rightarrow> bytes res) \<Rightarrow> os \<Rightarrow> request \<Rightarrow> os outcome" where
  "named_req cmi_name w q =
     Replies
       (case q of
          Repo \<Rightarrow> [''PATHNAME'', REPO_DIR]
        | Export f n \<Rightarrow> [''PATHNAME'', cmi_value cmi_name n]
        | Import f n \<Rightarrow> [''PATHNAME'', cmi_value cmi_name n]
        | Compiled f n \<Rightarrow> [''OK'']
        | Translate f n \<Rightarrow>
            if cmi_present w (cmi_value cmi_name n) then [''PATHNAME'', cmi_value cmi_name n] else [''BOOL'', ''FALSE'']
        | Invoke args \<Rightarrow> [''ERROR'', ''unimplemented'']) w True"

definition default_req :: "os \<Rightarrow> request \<Rightarrow> os outcome" where
  "default_req w q =
     Replies
       (case q of
          Repo \<Rightarrow> [''PATHNAME'', REPO_DIR]
        | Export f n \<Rightarrow> [''PATHNAME'', cmi_of n]
        | Import f n \<Rightarrow> [''PATHNAME'', cmi_of n]
        | Compiled f n \<Rightarrow> [''OK'']
        | Translate f n \<Rightarrow>
            if cmi_present w (cmi_of n) then [''PATHNAME'', cmi_of n] else [''BOOL'', ''FALSE'']
        | Invoke args \<Rightarrow> [''ERROR'', ''unimplemented'']) w True"

definition default_err :: "os \<Rightarrow> bytes \<Rightarrow> bytes list \<times> os" where
  "default_err w msg = ([''ERROR'', msg], w)"

lemma default_req_named: "default_req = named_req (GetCMIName GetCMISuffix)"
  by (simp add: fun_eq_iff default_req_def named_req_def cmi_of_def cmi_value_def split: request.split)

lemma cmi_of_eq: "n \<noteq> [] \<Longrightarrow> GetCMIName GetCMISuffix n = Inr (cmi_of n)"
  using GetCMIName_total [of n GetCMISuffix] by (auto simp: cmi_of_def)

text \<open>The probe of the repository closes what it opens.\<close>

lemma probe_closes: "0 \<le> os_open w \<Longrightarrow> close_fd (os_open w) (snd (open_repo w)) = w"
  by (cases w) (simp add: close_fd_def open_repo_def)

lemma obeys_Replies: "answered s ws r c s' \<Longrightarrow> obeys (Replies ws r c) s (Inr (0, s'))"
  by (simp add: obeys_def)

lemma c_extent_literals [simp]:
  "c_extent ''version mismatch'' None = ''version mismatch''" "c_extent ''default'' None = ''default''"
  "c_extent ''unimplemented'' None = ''unimplemented''" "c_extent REPO_DIR None = REPO_DIR"
  by (simp_all add: c_extent_def REPO_DIR_def)

lemma connected_of: "answered s ws r (is_connected s) s' \<Longrightarrow> is_connected s = c \<Longrightarrow> answered s ws r c s'"
  by simp

lemma default_connect_obeys:
  "\<not> is_connected s \<Longrightarrow>
    obeys_connect (default_conn (resolver s) v a i) s (Resolver_ConnectRequest s v a i)"
  using ErrorResponse_answered [of s "''version mismatch''" None] ConnectResponse_answered [of s "''default''" None]
  by (simp add: obeys_connect_def default_conn_def Resolver_ConnectRequest_def answered_resolver_out)

lemma default_err_answers:
  "\<exists>s'. Resolver_ErrorResponse s msg = Inr s'
     \<and> answered s (fst (default_err (resolver s) msg)) (snd (default_err (resolver s) msg)) (is_connected s) s'"
  using ErrorResponse_answered [of s msg "Some (length msg)"]
  by (simp add: Resolver_ErrorResponse_def ErrorResponse_string_def default_err_def)

text \<open>
  The interface of the mapping of names: it gives a name for every name that is not empty.
  Every resolver that overrides at most the mapping, in this way, keeps the contract.
\<close>

locale cmi_naming =
  fixes cmi_name :: "bytes \<Rightarrow> bytes res"
  assumes names: "n \<noteq> [] \<Longrightarrow> \<exists>cmi. cmi_name n = Inr cmi"
begin

lemma cmi_value_eq: "n \<noteq> [] \<Longrightarrow> cmi_name n = Inr (cmi_value cmi_name n)"
  using names [of n] by (auto simp: cmi_value_def)

lemma IncludeTranslate_named:
  "n \<noteq> [] \<Longrightarrow> Resolver_IncludeTranslateRequest cmi_name s f n =
     Inr (0, if cmi_present (resolver s) (cmi_value cmi_name n) then PathnameResponse_string (cmi_value cmi_name n) s
             else BoolResponse False s)"
  using probe_closes [of "resolver s"]
  by (auto simp: Resolver_IncludeTranslateRequest_def cmi_value_eq cmi_present_def open_repo_def Let_def)

lemma named_req_obeys:
  assumes "is_connected s"
  shows "obeys (named_req cmi_name (resolver s) Repo) s (Resolver_ModuleRepoRequest s)"
    and "n \<noteq> [] \<Longrightarrow> obeys (named_req cmi_name (resolver s) (Export f n)) s (Resolver_ModuleExportRequest cmi_name s f n)"
    and "n \<noteq> [] \<Longrightarrow> obeys (named_req cmi_name (resolver s) (Import f n)) s (Resolver_ModuleImportRequest cmi_name s f n)"
    and "obeys (named_req cmi_name (resolver s) (Compiled f n)) s (Resolver_ModuleCompiledRequest s f n)"
    and "n \<noteq> [] \<Longrightarrow> obeys (named_req cmi_name (resolver s) (Translate f n)) s
      (Resolver_IncludeTranslateRequest cmi_name s f n)"
    and "obeys (named_req cmi_name (resolver s) (Invoke args)) s (Resolver_InvokeSubProcessRequest s args)"
  using assms PathnameResponse_answered [of s REPO_DIR None] OKResponse_answered [of s]
    ErrorResponse_answered [of s "''unimplemented''" None] BoolResponse_answered [of s False]
    PathnameResponse_answered [of s "cmi_value cmi_name n" "Some (length (cmi_value cmi_name n))"]
  by (auto simp: named_req_def Resolver_ModuleRepoRequest_def Resolver_ModuleExportRequest_def
      Resolver_ModuleImportRequest_def Resolver_ModuleCompiledRequest_def IncludeTranslate_named
      Resolver_InvokeSubProcessRequest_def PathnameResponse_string_def cmi_value_eq intro!: obeys_Replies)

end

sublocale cmi_naming \<subseteq> named: direct_contract "Resolver_vtable cmi_name" default_conn "named_req cmi_name" default_err "\<lambda>w. w"
  by unfold_locales
    (simp_all add: WaitUntilReady_def Resolver_vtable_def default_connect_obeys named_req_obeys default_err_answers)

text \<open>The mapping of the code, with the suffix that \<open>GetCMISuffix\<close> or an override of it returns, or none.\<close>

interpretation suffixed: cmi_naming "GetCMIName sfx" for sfx :: "bytes option"
  by unfold_locales (simp add: GetCMIName_total)

text \<open>The resolver of the library itself.\<close>

interpretation dflt: direct_contract default_resolver default_conn default_req default_err "\<lambda>w. w"
  unfolding default_resolver_def default_req_named by (rule suffixed.named.direct_contract_axioms)

lemma IncludeTranslate_eq:
  "n \<noteq> [] \<Longrightarrow> Resolver_IncludeTranslateRequest (GetCMIName GetCMISuffix) s f n =
     Inr (0, if cmi_present (resolver s) (cmi_of n) then PathnameResponse_string (cmi_of n) s
             else BoolResponse False s)"
  using suffixed.IncludeTranslate_named [of n GetCMISuffix s f] by (simp add: cmi_of_def cmi_value_def)

abbreviation default_serve :: "(int \<Rightarrow> bytes) \<Rightarrow> os \<times> bool \<Rightarrow> bytes \<Rightarrow> bytes list \<times> os \<times> bool" where
  "default_serve strerr \<equiv> serve default_conn default_req default_err strerr"

end
