(* ===== verification/ClientCore.thy ===== *)
theory ClientCore
  imports ResolverServer
begin

text \<open>
  The client (\<open>client.cc\<close>, \<open>cody.hh\<close>): its state, the exchange of one block with the
  server, directly or over descriptors, the decoding of responses, corking, and the
  requests.
\<close>

section \<open>State\<close>

text \<open>
  The union of descriptors and server pointer, with its discriminator, is a datatype. The
  server of a direct connection is reached through this client only, so it is held by
  value.
\<close>

datatype 'r channel = Direct "'r Server" | Fds int int

text \<open>
  \<open>corked\<close> is a string of request codes, after a first character that only marks the
  connection as corked. \<open>kernel_writes\<close> and \<open>kernel_reads\<close> are not members: they are what
  the system will answer to the coming \<open>write(2)\<close> and \<open>read(2)\<close> calls, and \<open>kernel_sent\<close>
  the bytes it has accepted.
\<close>

record 'r Client =
  cl_write :: MessageBuffer
  cl_read :: MessageBuffer
  corked :: bytes
  channel :: "'r channel"
  cl_connected :: bool
  kernel_writes :: "write_ret list"
  kernel_reads :: "read_ret list"
  kernel_sent :: bytes

text \<open>The private constructor, which the two public ones start from.\<close>

definition Client_blank :: "'r Client" where
  "Client_blank = \<lparr>cl_write = empty_buffer, cl_read = empty_buffer, corked = [], channel = Fds (- 1) (- 1),
     cl_connected = False, kernel_writes = [], kernel_reads = [], kernel_sent = []\<rparr>"

definition Client_direct :: "'r Server \<Rightarrow> 'r Client" where
  "Client_direct s = Client_blank\<lparr>channel := Direct s\<rparr>"

definition Client_fds :: "int \<Rightarrow> int \<Rightarrow> write_ret list \<Rightarrow> read_ret list \<Rightarrow> 'r Client" where
  "Client_fds from_fd to_fd ws rs = Client_blank
     \<lparr>channel := Fds from_fd (if to_fd < 0 then from_fd else to_fd), kernel_writes := ws, kernel_reads := rs\<rparr>"

lemma Client_blank_fields [simp]:
  "cl_write Client_blank = empty_buffer" "cl_read Client_blank = empty_buffer" "corked Client_blank = []"
  "cl_connected Client_blank = False" "kernel_writes Client_blank = []" "kernel_reads Client_blank = []" "kernel_sent Client_blank = []"
  by (simp_all add: Client_blank_def)

definition IsDirect :: "'r Client \<Rightarrow> bool" where
  "IsDirect c = (case channel c of Direct _ \<Rightarrow> True | Fds _ _ \<Rightarrow> False)"

definition GetFDRead :: "'r Client \<Rightarrow> int" where
  "GetFDRead c = (case channel c of Direct _ \<Rightarrow> -1 | Fds from_fd _ \<Rightarrow> from_fd)"

definition GetFDWrite :: "'r Client \<Rightarrow> int" where
  "GetFDWrite c = (case channel c of Direct _ \<Rightarrow> -1 | Fds _ to_fd \<Rightarrow> to_fd)"

definition GetServer :: "'r Client \<Rightarrow> 'r Server option" where
  "GetServer c = (case channel c of Direct s \<Rightarrow> Some s | Fds _ _ \<Rightarrow> None)"

definition IsCorked :: "'r Client \<Rightarrow> bool" where
  "IsCorked c \<longleftrightarrow> corked c \<noteq> []"

definition Client_IsConnected :: "'r Client \<Rightarrow> bool" where
  "Client_IsConnected c = cl_connected c"

text \<open>
  Moving a client: the new one, which goes on with the connection, and what is left of the
  old one. The members of the union are copied according to the discriminator.
\<close>

definition Client_move :: "'r Client \<Rightarrow> 'r Client \<times> 'r Client" where
  "Client_move src =
     (let (w, w') = MessageBuffer_move (cl_write src);
          (r, r') = MessageBuffer_move (cl_read src)
      in (\<lparr>cl_write = w, cl_read = r, corked = corked src,
           channel = (case channel src of Direct s \<Rightarrow> Direct s | Fds from_fd to_fd \<Rightarrow> Fds from_fd to_fd),
           cl_connected = cl_connected src, kernel_writes = kernel_writes src,
           kernel_reads = kernel_reads src, kernel_sent = kernel_sent src\<rparr>,
          src\<lparr>cl_write := w', cl_read := r', corked := []\<rparr>))"

definition Client_assign :: "'r Client \<Rightarrow> 'r Client \<Rightarrow> 'r Client \<times> 'r Client" where
  "Client_assign this src =
     (let (w, w') = MessageBuffer_move (cl_write src);
          (r, r') = MessageBuffer_move (cl_read src);
          c = this\<lparr>cl_write := w\<rparr>;
          c = c\<lparr>cl_read := r\<rparr>;
          c = c\<lparr>corked := corked src\<rparr>;
          c = c\<lparr>cl_connected := cl_connected src\<rparr>;
          c = (case channel src of Direct s \<Rightarrow> c\<lparr>channel := Direct s\<rparr>
               | Fds from_fd to_fd \<Rightarrow> c\<lparr>channel := Fds from_fd to_fd\<rparr>)
      in (c\<lparr>kernel_writes := kernel_writes src, kernel_reads := kernel_reads src, kernel_sent := kernel_sent src\<rparr>,
          src\<lparr>cl_write := w', cl_read := r', corked := []\<rparr>))"

lemma Client_move_eq: "fst (Client_move src) = src" "Client_assign this src = Client_move src"
  by (simp_all add: Client_move_def Client_assign_def MessageBuffer_move_def split: channel.split)

section \<open>Exchange of a block\<close>

definition CommunicateWithServer ::
  "(int \<Rightarrow> bytes) \<Rightarrow> 'r Resolver_vt \<Rightarrow> 'r Client \<Rightarrow> (int \<times> 'r Client) res" where
  "CommunicateWithServer strerr vt c =
     (let c = c\<lparr>cl_write := PrepareToWrite (cl_write c), cl_read := PrepareToRead (cl_read c)\<rparr>
      in case channel c of
           Direct s \<Rightarrow>
             bind_res (DirectProcess strerr vt s (cl_write c) (cl_read c)) (\<lambda>(s, w, r).
               Inr (0, c\<lparr>channel := Direct s, cl_write := w, cl_read := r\<rparr>))
         | Fds from_fd to_fd \<Rightarrow>
             bind_res (write_all (kernel_writes c) (cl_write c)) (\<lambda>(e, sent, w, ws).
               let c = c\<lparr>cl_write := w, kernel_writes := ws, kernel_sent := kernel_sent c @ sent\<rparr>
               in if e \<noteq> 0 then Inr (e, c)
                  else bind_res (read_all (kernel_reads c) (cl_read c)) (\<lambda>(e, r, rs).
                    Inr (e, c\<lparr>cl_read := r, kernel_reads := rs\<rparr>))))"

definition CommunicationError :: "(int \<Rightarrow> bytes) \<Rightarrow> int \<Rightarrow> Packet" where
  "CommunicationError strerr err = Packet_str PC_ERROR (''communication error: '' @ strerr err)"

section \<open>Responses\<close>

definition Client_ConnectResponse :: "bytes list \<Rightarrow> Packet" where
  "Client_ConnectResponse words =
     (if words ! 0 = ''HELLO'' \<and> (length words = 3 \<or> length words = 4) then
        (let (val, eptr) = strtoul (c_str (words ! 1));
             version = ucast val :: 32 word
         in if eptr \<noteq> [] \<or> ucast version \<noteq> val \<or> version < Version
            then Packet_str PC_ERROR ''incompatible version''
            else
              let flags = (if length words = 4 then ucast (fst (strtoul (c_str (words ! 3)))) else 0 :: 32 word)
              in Packet_int PC_CONNECT (ucast flags))
      else Packet_str PC_ERROR [])"

definition Client_PathnameResponse :: "bytes list \<Rightarrow> Packet" where
  "Client_PathnameResponse words =
     (if words ! 0 = ''PATHNAME'' \<and> length words = 2 then Packet_str PC_PATHNAME (words ! 1)
      else Packet_str PC_ERROR [])"

definition Client_OKResponse :: "bytes list \<Rightarrow> Packet" where
  "Client_OKResponse words =
     (if words ! 0 = ''OK'' then Packet_int PC_OK 0
      else Packet_str PC_ERROR (if length words = 2 then words ! 1 else []))"

definition IncludeTranslateResponse :: "bytes list \<Rightarrow> Packet" where
  "IncludeTranslateResponse words =
     (if words ! 0 = ''BOOL'' \<and> length words = 2 then
        (if words ! 1 = ''FALSE'' then Packet_int PC_BOOL 0
         else if words ! 1 = ''TRUE'' then Packet_int PC_BOOL 1
         else Packet_str PC_ERROR [])
      else Client_PathnameResponse words)"

definition responseTable :: "(bytes list \<Rightarrow> Packet) list" where
  "responseTable =
     [Client_ConnectResponse, Client_PathnameResponse, Client_PathnameResponse, Client_PathnameResponse,
      Client_OKResponse, IncludeTranslateResponse, Client_OKResponse]"

text \<open>\<open>Packet (code)\<close> uses the default integer value 0.\<close>

definition ProcessResponse :: "'r Client \<Rightarrow> 32 word \<Rightarrow> bool \<Rightarrow> (Packet \<times> 'r Client) res" where
  "ProcessResponse c rc isLast =
     bind_res (Lex (cl_read c)) (\<lambda>(e, words, rb).
       let c = c\<lparr>cl_read := rb\<rparr> in
       if e \<noteq> 0 then
         (if e = EINVAL then
            bind_res (if words = [] then Inl OutOfRange else Inr (words ! 0)) (\<lambda>w0.
              Inr (Packet_str PC_ERROR (''malformed string '' @ [APOS] @ w0 @ [APOS]), c))
          else Inr (Packet_str PC_ERROR ''missing response'', c))
       else if words = [] then Inl AssertFailure
       else if words ! 0 = ''ERROR'' then
         Inr (Packet_str PC_ERROR (if length words = 2 then words ! 1 else ''malformed error response''), c)
       else if isLast \<and> \<not> IsAtEnd (cl_read c) then
         Inr (Packet_str PC_ERROR ''unexpected extra response'', c)
       else if \<not> unat rc < rc_num RC_HWM then Inl AssertFailure
       else
         let result = SetRequest rc ((responseTable ! unat rc) words) in
         bind_res (if GetCode result = PC_ERROR
                   then bind_res (GetString result) (\<lambda>str. Inr (str = []))
                   else Inr False) (\<lambda>empty_error.
           if empty_error then
             bind_res (LexedLine (cl_read c) (''malformed response '' @ [APOS])) (\<lambda>msg.
             bind_res (AssignString (msg @ [APOS]) result) (\<lambda>result. Inr (result, c)))
           else if GetCode result = PC_CONNECT then Inr (result, c\<lparr>cl_connected := True\<rparr>)
           else Inr (result, c)))"

section \<open>Corking\<close>

text \<open>A request code becomes a \<open>char\<close> in the queue and an \<open>unsigned\<close> again on the way out.\<close>

definition cork_char :: "32 word \<Rightarrow> char" where
  "cork_char rc = char_of (unat rc)"

definition uncork_code :: "char \<Rightarrow> 32 word" where
  "uncork_code ch = word_of_int (char_val True ch)"

definition MaybeRequest ::
  "(int \<Rightarrow> bytes) \<Rightarrow> 'r Resolver_vt \<Rightarrow> 'r Client \<Rightarrow> 32 word \<Rightarrow> (Packet \<times> 'r Client) res" where
  "MaybeRequest strerr vt c rc =
     (if IsCorked c then Inr (Packet_int PC_CORKED 0, c\<lparr>corked := corked c @ [cork_char rc]\<rparr>)
      else bind_res (CommunicateWithServer strerr vt c) (\<lambda>(err, c).
        if err \<noteq> 0 then Inr (CommunicationError strerr err, c)
        else ProcessResponse c rc True))"

definition Cork :: "'r Client \<Rightarrow> 'r Client" where
  "Cork c = (if corked c = [] then c\<lparr>corked := corked c @ [char_of (255 :: nat)]\<rparr> else c)"

fun uncork_loop :: "'r Client \<Rightarrow> bytes \<Rightarrow> (Packet list \<times> 'r Client) res" where
  "uncork_loop c [] = Inr ([], c)"
| "uncork_loop c (ch # codes) =
     bind_res (ProcessResponse c (uncork_code ch) (codes = [])) (\<lambda>(p, c).
     bind_res (uncork_loop c codes) (\<lambda>(ps, c). Inr (p # ps, c)))"

definition Uncork :: "(int \<Rightarrow> bytes) \<Rightarrow> 'r Resolver_vt \<Rightarrow> 'r Client \<Rightarrow> (Packet list \<times> 'r Client) res" where
  "Uncork strerr vt c =
     bind_res
       (if length (corked c) > 1 then
          bind_res (CommunicateWithServer strerr vt c) (\<lambda>(err, c).
            if err \<noteq> 0 then Inr ([CommunicationError strerr err], c)
            else uncork_loop c (tl (corked c)))
        else Inr ([], c))
       (\<lambda>(result, c). Inr (result, c\<lparr>corked := []\<rparr>))"

section \<open>Requests\<close>

text \<open>The code of a request, as the \<open>unsigned\<close> argument of \<open>MaybeRequest\<close>.\<close>

definition rc_word :: "RequestCode \<Rightarrow> 32 word" where
  "rc_word rc = word_of_nat (rc_num rc)"

definition Connect ::
  "(int \<Rightarrow> bytes) \<Rightarrow> 'r Resolver_vt \<Rightarrow> bytes \<Rightarrow> bytes \<Rightarrow> nat option \<Rightarrow> nat option \<Rightarrow> 'r Client
   \<Rightarrow> (Packet \<times> 'r Client) res" where
  "Connect strerr vt agent ident alen ilen c =
     (let w = BeginLine (cl_write c);
          w = AppendWord ''HELLO'' False None w;
          w = AppendInteger Version w;
          w = AppendWord agent True alen w;
          w = AppendWord ident True ilen w;
          w = EndLine w
      in MaybeRequest strerr vt (c\<lparr>cl_write := w\<rparr>) (rc_word RC_CONNECT))"

definition ModuleRepo :: "(int \<Rightarrow> bytes) \<Rightarrow> 'r Resolver_vt \<Rightarrow> 'r Client \<Rightarrow> (Packet \<times> 'r Client) res" where
  "ModuleRepo strerr vt c =
     (let w = BeginLine (cl_write c);
          w = AppendWord ''MODULE-REPO'' False None w;
          w = EndLine w
      in MaybeRequest strerr vt (c\<lparr>cl_write := w\<rparr>) (rc_word RC_MODULE_REPO))"

text \<open>The arguments of \<open>InvokeSubProcess\<close> are appended without quoting, as in the code.\<close>

definition InvokeSubProcess ::
  "(int \<Rightarrow> bytes) \<Rightarrow> 'r Resolver_vt \<Rightarrow> bytes list \<Rightarrow> 'r Client \<Rightarrow> (Packet \<times> 'r Client) res" where
  "InvokeSubProcess strerr vt argv c =
     (let w = BeginLine (cl_write c);
          w = AppendWord ''INVOKE'' False None w;
          w = fold (\<lambda>arg. AppendWord arg False None) argv w;
          w = EndLine w
      in MaybeRequest strerr vt (c\<lparr>cl_write := w\<rparr>) (rc_word RC_INVOKE))"

text \<open>
  The message of a request on a module or include file; the four requests differ in the
  keyword and in the request code.
\<close>

definition put_named :: "bytes \<Rightarrow> bytes \<Rightarrow> Flags \<Rightarrow> nat option \<Rightarrow> MessageBuffer \<Rightarrow> MessageBuffer" where
  "put_named keyword name flags len w =
     (let w = BeginLine w;
          w = AppendWord keyword False None w;
          w = AppendWord name True len w;
          w = (if flags \<noteq> Flags_None then AppendInteger flags w else w)
      in EndLine w)"

definition ModuleExport ::
  "(int \<Rightarrow> bytes) \<Rightarrow> 'r Resolver_vt \<Rightarrow> bytes \<Rightarrow> Flags \<Rightarrow> nat option \<Rightarrow> 'r Client \<Rightarrow> (Packet \<times> 'r Client) res" where
  "ModuleExport strerr vt module flags mlen c =
     MaybeRequest strerr vt (c\<lparr>cl_write := put_named ''MODULE-EXPORT'' module flags mlen (cl_write c)\<rparr>)
       (rc_word RC_MODULE_EXPORT)"

definition ModuleImport ::
  "(int \<Rightarrow> bytes) \<Rightarrow> 'r Resolver_vt \<Rightarrow> bytes \<Rightarrow> Flags \<Rightarrow> nat option \<Rightarrow> 'r Client \<Rightarrow> (Packet \<times> 'r Client) res" where
  "ModuleImport strerr vt module flags mlen c =
     MaybeRequest strerr vt (c\<lparr>cl_write := put_named ''MODULE-IMPORT'' module flags mlen (cl_write c)\<rparr>)
       (rc_word RC_MODULE_IMPORT)"

definition ModuleCompiled ::
  "(int \<Rightarrow> bytes) \<Rightarrow> 'r Resolver_vt \<Rightarrow> bytes \<Rightarrow> Flags \<Rightarrow> nat option \<Rightarrow> 'r Client \<Rightarrow> (Packet \<times> 'r Client) res" where
  "ModuleCompiled strerr vt module flags mlen c =
     MaybeRequest strerr vt (c\<lparr>cl_write := put_named ''MODULE-COMPILED'' module flags mlen (cl_write c)\<rparr>)
       (rc_word RC_MODULE_COMPILED)"

definition IncludeTranslate ::
  "(int \<Rightarrow> bytes) \<Rightarrow> 'r Resolver_vt \<Rightarrow> bytes \<Rightarrow> Flags \<Rightarrow> nat option \<Rightarrow> 'r Client \<Rightarrow> (Packet \<times> 'r Client) res" where
  "IncludeTranslate strerr vt include flags ilen c =
     MaybeRequest strerr vt (c\<lparr>cl_write := put_named ''INCLUDE-TRANSLATE'' include flags ilen (cl_write c)\<rparr>)
       (rc_word RC_INCLUDE_TRANSLATE)"

section \<open>Overloads\<close>

text \<open>\<open>Connect\<close> with an ident that may be null, as its documentation allows.\<close>

definition Connect_ptr ::
  "(int \<Rightarrow> bytes) \<Rightarrow> 'r Resolver_vt \<Rightarrow> bytes \<Rightarrow> bytes option \<Rightarrow> nat option \<Rightarrow> nat option \<Rightarrow> 'r Client
   \<Rightarrow> (Packet \<times> 'r Client) res" where
  "Connect_ptr strerr vt agent ident alen ilen c =
     (let w = BeginLine (cl_write c);
          w = AppendWord ''HELLO'' False None w;
          w = AppendInteger Version w;
          w = AppendWord agent True alen w
      in bind_res (AppendWord_ptr ident True ilen w) (\<lambda>w.
         let w = EndLine w
         in MaybeRequest strerr vt (c\<lparr>cl_write := w\<rparr>) (rc_word RC_CONNECT)))"

definition Connect_string ::
  "(int \<Rightarrow> bytes) \<Rightarrow> 'r Resolver_vt \<Rightarrow> bytes \<Rightarrow> bytes \<Rightarrow> 'r Client \<Rightarrow> (Packet \<times> 'r Client) res" where
  "Connect_string strerr vt agent ident c =
     Connect strerr vt agent ident (Some (length agent)) (Some (length ident)) c"

definition InvokeSubProcess_vector ::
  "(int \<Rightarrow> bytes) \<Rightarrow> 'r Resolver_vt \<Rightarrow> bytes list \<Rightarrow> 'r Client \<Rightarrow> (Packet \<times> 'r Client) res" where
  "InvokeSubProcess_vector strerr vt args c = InvokeSubProcess strerr vt args c"

text \<open>
  The overloads of the requests on a name: a C string without flags, and a \<open>std::string\<close>,
  whose flags default to none.
\<close>

definition ModuleExport_cstr :: "(int \<Rightarrow> bytes) \<Rightarrow> 'r Resolver_vt \<Rightarrow> bytes \<Rightarrow> 'r Client \<Rightarrow> (Packet \<times> 'r Client) res" where
  "ModuleExport_cstr strerr vt str c = ModuleExport strerr vt str Flags_None None c"

definition ModuleExport_string ::
  "(int \<Rightarrow> bytes) \<Rightarrow> 'r Resolver_vt \<Rightarrow> bytes \<Rightarrow> Flags \<Rightarrow> 'r Client \<Rightarrow> (Packet \<times> 'r Client) res" where
  "ModuleExport_string strerr vt s flags c = ModuleExport strerr vt s flags (Some (length s)) c"

definition ModuleImport_cstr :: "(int \<Rightarrow> bytes) \<Rightarrow> 'r Resolver_vt \<Rightarrow> bytes \<Rightarrow> 'r Client \<Rightarrow> (Packet \<times> 'r Client) res" where
  "ModuleImport_cstr strerr vt str c = ModuleImport strerr vt str Flags_None None c"

definition ModuleImport_string ::
  "(int \<Rightarrow> bytes) \<Rightarrow> 'r Resolver_vt \<Rightarrow> bytes \<Rightarrow> Flags \<Rightarrow> 'r Client \<Rightarrow> (Packet \<times> 'r Client) res" where
  "ModuleImport_string strerr vt s flags c = ModuleImport strerr vt s flags (Some (length s)) c"

definition ModuleCompiled_cstr :: "(int \<Rightarrow> bytes) \<Rightarrow> 'r Resolver_vt \<Rightarrow> bytes \<Rightarrow> 'r Client \<Rightarrow> (Packet \<times> 'r Client) res" where
  "ModuleCompiled_cstr strerr vt str c = ModuleCompiled strerr vt str Flags_None None c"

definition ModuleCompiled_string ::
  "(int \<Rightarrow> bytes) \<Rightarrow> 'r Resolver_vt \<Rightarrow> bytes \<Rightarrow> Flags \<Rightarrow> 'r Client \<Rightarrow> (Packet \<times> 'r Client) res" where
  "ModuleCompiled_string strerr vt s flags c = ModuleCompiled strerr vt s flags (Some (length s)) c"

definition IncludeTranslate_cstr :: "(int \<Rightarrow> bytes) \<Rightarrow> 'r Resolver_vt \<Rightarrow> bytes \<Rightarrow> 'r Client \<Rightarrow> (Packet \<times> 'r Client) res" where
  "IncludeTranslate_cstr strerr vt str c = IncludeTranslate strerr vt str Flags_None None c"

definition IncludeTranslate_string ::
  "(int \<Rightarrow> bytes) \<Rightarrow> 'r Resolver_vt \<Rightarrow> bytes \<Rightarrow> Flags \<Rightarrow> 'r Client \<Rightarrow> (Packet \<times> 'r Client) res" where
  "IncludeTranslate_string strerr vt s flags c = IncludeTranslate strerr vt s flags (Some (length s)) c"

text \<open>A null ident is undefined behaviour unless its length is given as 0; then it is sent as an empty word.\<close>

lemma Connect_ptr_null:
  "ilen \<noteq> Some 0 \<Longrightarrow> Connect_ptr strerr vt agent None alen ilen c = Inl OutOfRange"
  "Connect_ptr strerr vt agent None alen (Some 0) c = Connect strerr vt agent [] alen (Some 0) c"
  "Connect_ptr strerr vt agent (Some ident) alen ilen c = Connect strerr vt agent ident alen ilen c"
  by (simp_all add: Connect_ptr_def Connect_def AppendWord_ptr_def Append_ptr_def AppendWord_def Let_def)

end
