(* ===== verification/ClientSpec.thy ===== *)
theory ClientSpec
  imports ClientCore
begin

text \<open>
  What the client computes from a response line, as a function of the line, and the
  exchange of whole blocks with a directly connected server: each queued request gets the
  packet that belongs to the reply the abstract server gives to it.
\<close>

section \<open>From a line to a packet\<close>

text \<open>A response decoder's empty error is replaced by one that quotes the line.\<close>

definition fill_error :: "bytes \<Rightarrow> Packet \<Rightarrow> Packet" where
  "fill_error line p =
     (if GetCode p = PC_ERROR \<and> payload p = String []
      then p\<lparr>payload := String (''malformed response '' @ [APOS] @ strip_cont line @ [APOS])\<rparr> else p)"

definition reply_packet :: "RequestCode \<Rightarrow> bool \<Rightarrow> bytes \<Rightarrow> Packet" where
  "reply_packet rc extra line =
     (case lex_line line of
        None \<Rightarrow> Packet_str PC_ERROR (''malformed string '' @ [APOS] @ strip_cont line @ [APOS])
      | Some ws \<Rightarrow>
          if ws = [] then Packet_str PC_ERROR ''missing response''
          else if ws ! 0 = ''ERROR'' then
            Packet_str PC_ERROR (if length ws = 2 then ws ! 1 else ''malformed error response'')
          else if extra then Packet_str PC_ERROR ''unexpected extra response''
          else fill_error line (SetRequest (rc_word rc) ((responseTable ! rc_num rc) ws)))"

lemma unat_rc_word [simp]: "unat (rc_word rc) = rc_num rc"
  by (cases rc) (simp_all add: rc_word_def)

lemma rc_num_HWM: "rc \<noteq> RC_HWM \<Longrightarrow> rc_num rc < 7"
  by (cases rc) simp_all

lemma uncork_cork [simp]: "uncork_code (cork_char (rc_word rc)) = rc_word rc"
  by (cases rc) (simp_all add: uncork_code_def cork_char_def rc_word_def char_val_def uchar_char_of)

lemma SetRequest_code [simp]: "GetCode (SetRequest r p) = GetCode p" "payload (SetRequest r p) = payload p"
  by (simp_all add: SetRequest_def GetCode_def)

lemma GetCode_payload [simp]: "GetCode (p\<lparr>payload := x\<rparr>) = GetCode p"
  by (simp add: GetCode_def)

lemma Packet_codes [simp]:
  "GetCode (Packet_str PC_ERROR s) = PC_ERROR" "GetCode (Packet_str PC_PATHNAME s) = PC_PATHNAME"
  "GetCode (Packet_int PC_CONNECT i) = PC_CONNECT" "GetCode (Packet_int PC_OK i) = PC_OK"
  "GetCode (Packet_int PC_BOOL i) = PC_BOOL" "GetCode (Packet_int PC_CORKED i) = PC_CORKED"
  by (simp_all add: GetCode_of)

text \<open>The decoders build an error packet with a string only.\<close>

lemma response_error_string:
  assumes "rc \<noteq> RC_HWM" and "GetCode ((responseTable ! rc_num rc) ws) = PC_ERROR"
  shows "\<exists>str. payload ((responseTable ! rc_num rc) ws) = String str"
proof -
  have "\<exists>str. payload (Packet_str PC_ERROR s) = String str" for s by (simp add: Packet_str_def)
  with assms show ?thesis
    by (cases rc)
      (auto simp: responseTable_def Client_ConnectResponse_def Client_PathnameResponse_def Client_OKResponse_def
        IncludeTranslateResponse_def Let_def split: if_splits prod.splits)
qed

lemma lexed_line_ne: "lex_line line = Some (w # ws) \<Longrightarrow> line \<noteq> [] \<and> line \<noteq> [CONTINUE]"
  by (auto simp: lex_line_def)

lemma ProcessResponse_line:
  assumes at: "readable (cl_read c)" "\<not> IsAtEnd (cl_read c)" and rc: "rc \<noteq> RC_HWM"
    and p: "p = reply_packet rc (isLast \<and> \<not> IsAtEnd (skip_line (cl_read c))) (next_line (cl_read c))"
  shows "ProcessResponse c (rc_word rc) isLast =
    Inr (p, c\<lparr>cl_read := skip_line (cl_read c), cl_connected := (cl_connected c \<or> GetCode p = PC_CONNECT)\<rparr>)"
proof -
  let ?line = "next_line (cl_read c)"
  have keep: "c\<lparr>cl_read := r, cl_connected := cl_connected c\<rparr> = c\<lparr>cl_read := r\<rparr>" for r by simp
  consider "lex_line ?line = None" | "lex_line ?line = Some []" | w ws where "lex_line ?line = Some (w # ws)"
    by (metis neq_Nil_conv option.exhaust)
  then show ?thesis
  proof cases
    case 3
    note lexed = LexedLine_line [OF at] lexed_line_ne [OF 3]
    let ?r = "(responseTable ! rc_num rc) (w # ws)"
    show ?thesis
      using Lex_line [OF at] 3 rc_num_HWM [OF rc] lexed response_error_string [OF rc, of "w # ws"]
      by (cases "GetCode ?r = PC_ERROR")
        (auto simp: ProcessResponse_def p reply_packet_def lex_result_def fill_error_def Let_def GetString_def
          AssignString_def keep)
  qed (use Lex_line [OF at] in \<open>simp_all add: ProcessResponse_def p reply_packet_def lex_result_def keep\<close>)
qed

lemma ProcessResponse_missing:
  "IsAtEnd (cl_read c) \<Longrightarrow> ProcessResponse c rc isLast = Inr (Packet_str PC_ERROR ''missing response'', c)"
  by (simp add: ProcessResponse_def Lex_def Lex_at_end)

section \<open>The lines of a block on the wire\<close>

text \<open>
  The lines as the other side finds them, with their continuations. What it makes of a line
  does not depend on the continuation, whatever the text of the line.
\<close>

fun wire :: "bytes list \<Rightarrow> bytes list" where
  "wire [] = []"
| "wire (l # ls) = (l @ line_tail (ls \<noteq> [])) # wire ls"

lemma length_wire [simp]: "length (wire ls) = length ls"
  by (induction ls) auto

lemma remaining_Cons_ne: "remaining (ws # ls) b \<Longrightarrow> ws \<noteq> []"
  by (auto simp: remaining_def)

lemma left_lines_of: "left_lines ls b \<Longrightarrow> lines_of b = wire ls"
proof (induction ls arbitrary: b)
  case (Cons l ls)
  then show ?case
    using lines_of_line [OF left_lines_readable left_lines_not_end, OF Cons.prems Cons.prems]
      left_lines_line [OF Cons.prems] Cons.IH [OF left_lines_skip [OF Cons.prems]] by simp
qed (simp add: left_lines_end lines_of_end)

lemma line_tail_False [simp]: "line_tail False = []"
  by (simp add: line_tail_def)

lemma strip_cont_tail: "plain_line l \<Longrightarrow> strip_cont (l @ line_tail m) = strip_cont l"
  using strip_cont_plain [of l m] strip_cont_plain [of l False] by simp

lemma quoting_tail:
  "plain_line l \<Longrightarrow> complaint what (l @ line_tail m) = complaint what l"
  "plain_line l \<Longrightarrow> fill_error (l @ line_tail m) p = fill_error l p"
  by (simp_all add: complaint_def fill_error_def strip_cont_tail)

lemma serve_tail:
  assumes "plain_line l"
  shows "serve conn req err strerr st (l @ line_tail m) = serve conn req err strerr st l"
  by (cases st) (simp only: serve.simps lex_line_plain [OF assms] quoting_tail [OF assms])

lemma reply_packet_tail:
  assumes "plain_line l"
  shows "reply_packet rc extra (l @ line_tail m) = reply_packet rc extra l"
  by (simp only: reply_packet_def lex_line_plain [OF assms] strip_cont_tail [OF assms] quoting_tail [OF assms])

lemma serve_all_wire:
  "list_all plain_line ls \<Longrightarrow> serve_all (serve conn req err strerr) st (wire ls)
     = serve_all (serve conn req err strerr) st ls"
  by (induction ls arbitrary: st) (auto simp: serve_tail simp del: serve.simps)

lemma first_line_fine:
  assumes "left_lines ls b" and "ls \<noteq> []"
  shows "next_line b \<noteq> [] \<and> next_line b \<noteq> [CONTINUE]"
proof -
  obtain l ms where ls: "ls = l # ms" using assms by (cases ls) auto
  then have "l \<noteq> []" "l \<noteq> [CONTINUE]" using assms(1) by (auto simp: left_lines_def plain_line_def)
  then show ?thesis using left_lines_line assms(1) by (auto simp: ls line_tail_def)
qed

section \<open>Decoding a block of responses\<close>

definition connects :: "Packet list \<Rightarrow> bool" where
  "connects ps \<longleftrightarrow> (\<exists>p \<in> set ps. GetCode p = PC_CONNECT)"

lemma connects_simps [simp]: "connects [] = False" "connects (p # ps) \<longleftrightarrow> GetCode p = PC_CONNECT \<or> connects ps"
  by (auto simp: connects_def)

definition packets :: "bytes list list \<Rightarrow> RequestCode list \<Rightarrow> Packet list" where
  "packets wss rcs = map2 (\<lambda>ws rc. reply_packet rc False (enc_line ws)) wss rcs"

lemma packets_Cons [simp]:
  "packets (ws # wss) (rc # rcs) = reply_packet rc False (enc_line ws) # packets wss rcs"
  by (simp add: packets_def)

lemma ProcessResponse_remaining:
  assumes "remaining (ws # wss) (cl_read c)" and "rc \<noteq> RC_HWM" and "isLast \<Longrightarrow> wss = []"
  shows "ProcessResponse c (rc_word rc) isLast =
    Inr (reply_packet rc False (enc_line ws), c\<lparr>cl_read := skip_line (cl_read c),
      cl_connected := (cl_connected c \<or> GetCode (reply_packet rc False (enc_line ws)) = PC_CONNECT)\<rparr>)"
proof -
  have "(isLast \<and> \<not> IsAtEnd (skip_line (cl_read c))) = False"
    using assms(3) remaining_skip [OF assms(1)] by auto
  then have "reply_packet rc False (enc_line ws)
      = reply_packet rc (isLast \<and> \<not> IsAtEnd (skip_line (cl_read c))) (next_line (cl_read c))"
    by (simp only: remaining_line [OF assms(1)] reply_packet_tail plain_enc_line remaining_Cons_ne [OF assms(1)] not_False_eq_True)
  from ProcessResponse_line [OF remaining_readable remaining_not_end assms(2) this, OF assms(1) assms(1)]
  show ?thesis .
qed

lemma uncork_loop_remaining:
  assumes "remaining wss (cl_read c)" and "length rcs = length wss" and "RC_HWM \<notin> set rcs"
  shows "uncork_loop c (map (\<lambda>rc. cork_char (rc_word rc)) rcs) =
    Inr (packets wss rcs, c\<lparr>cl_read := at_end (cl_read c), cl_connected := (cl_connected c \<or> connects (packets wss rcs))\<rparr>)"
  using assms
proof (induction rcs arbitrary: wss c)
  case Nil
  then show ?case by (simp add: packets_def at_end_end)
next
  case (Cons rc rcs)
  then obtain ws vss where wss: "wss = ws # vss" by (cases wss) auto
  let ?p = "reply_packet rc False (enc_line ws)"
  let ?c = "c\<lparr>cl_read := skip_line (cl_read c), cl_connected := (cl_connected c \<or> GetCode ?p = PC_CONNECT)\<rparr>"
  have "ProcessResponse c (rc_word rc) (rcs = []) = Inr (?p, ?c)"
    using Cons.prems by (intro ProcessResponse_remaining [where wss = vss]) (auto simp: wss)
  moreover have "remaining vss (cl_read ?c)" using remaining_skip Cons.prems(1) by (simp add: wss)
  moreover note Cons.IH [of vss ?c]
  ultimately show ?case using Cons.prems by (simp add: wss disj_assoc)
qed

text \<open>
  The packets for a queue of requests from the lines of any block, one for each request: a
  line that is malformed or of the wrong kind spoils its own packet only, lines that are
  missing at the end are reported for each request left, and lines too many in the last packet.
\<close>

fun peer_packets :: "RequestCode list \<Rightarrow> bytes list \<Rightarrow> Packet list" where
  "peer_packets [] ls = []"
| "peer_packets (rc # rcs) [] = Packet_str PC_ERROR ''missing response'' # peer_packets rcs []"
| "peer_packets (rc # rcs) (l # ls) = reply_packet rc (rcs = [] \<and> ls \<noteq> []) l # peer_packets rcs ls"

lemma length_peer_packets [simp]: "length (peer_packets rcs ls) = length rcs"
  by (induction rcs ls rule: peer_packets.induct) simp_all

lemma lines_of_empty: "readable b \<Longrightarrow> lines_of b = [] \<longleftrightarrow> IsAtEnd b"
  using lines_of_line lines_of_end by fastforce

lemma uncork_loop_lines:
  assumes "readable (cl_read c)" and "RC_HWM \<notin> set rcs" and "ls = lines_of (cl_read c)"
  shows "\<exists>rb. uncork_loop c (map (\<lambda>rc. cork_char (rc_word rc)) rcs) = Inr (peer_packets rcs ls,
    c\<lparr>cl_read := rb, cl_connected := (cl_connected c \<or> connects (peer_packets rcs ls))\<rparr>)"
  using assms
proof (induction rcs arbitrary: c ls)
  case Nil
  then show ?case by (auto intro!: exI [of _ "cl_read c"])
next
  case (Cons rc rcs)
  have keep: "c = c\<lparr>cl_connected := cl_connected c\<rparr>" by simp
  show ?case
  proof (cases "IsAtEnd (cl_read c)")
    case True
    then have "ls = []" using Cons.prems(3) by (simp add: lines_of_end)
    then show ?thesis
      using Cons.IH [OF Cons.prems(1) _ Cons.prems(3)] Cons.prems(2) ProcessResponse_missing [OF True] by auto
  next
    case False
    let ?b = "skip_line (cl_read c)"
    have ls: "ls = next_line (cl_read c) # lines_of ?b" "readable ?b"
      using Cons.prems(1,3) False lines_of_line skip_line_readable by auto
    let ?p = "reply_packet rc (rcs = [] \<and> lines_of ?b \<noteq> []) (next_line (cl_read c))"
    let ?c = "c\<lparr>cl_read := ?b, cl_connected := (cl_connected c \<or> GetCode ?p = PC_CONNECT)\<rparr>"
    have "ProcessResponse c (rc_word rc) (rcs = []) = Inr (?p, ?c)"
      using Cons.prems(2) lines_of_empty [OF ls(2)] by (intro ProcessResponse_line [OF Cons.prems(1) False]) auto
    moreover obtain rb where "uncork_loop ?c (map (\<lambda>rc. cork_char (rc_word rc)) rcs) = Inr (peer_packets rcs (lines_of ?b),
        ?c\<lparr>cl_read := rb, cl_connected := (cl_connected ?c \<or> connects (peer_packets rcs (lines_of ?b)))\<rparr>)"
      using Cons.IH [of ?c "lines_of ?b"] ls(2) Cons.prems(2) by auto
    ultimately show ?thesis by (auto simp: ls(1) disj_assoc intro!: exI [of _ rb])
  qed
qed

section \<open>Exchanges over a direct connection\<close>

text \<open>
  \<open>linked s c\<close>: the client is directly connected to the server \<open>s\<close>, which is between
  blocks. \<open>queued reqs c\<close>: the client has been corked and has queued the requests \<open>reqs\<close>,
  each with the text of its line.
\<close>

definition linked :: "'r Server \<Rightarrow> 'r Client \<Rightarrow> bool" where
  "linked s c \<longleftrightarrow> channel c = Direct s \<and> buffer (sv_write s) = []"

definition queued :: "(bytes \<times> RequestCode) list \<Rightarrow> 'r Client \<Rightarrow> bool" where
  "queued reqs c \<longleftrightarrow> holds_lines (map fst reqs) (cl_write c)
     \<and> (\<exists>m. corked c = m # map (\<lambda>rc. cork_char (rc_word rc)) (map snd reqs))"

context direct_contract
begin

lemma exchange:
  assumes linked: "linked s c" and held: "holds_lines ls (cl_write c)" "ls \<noteq> []"
    and served: "serve_all (serve conn req err strerr) (resolver s, is_connected s) ls = (wss, r', c')"
  shows "\<exists>s' d. CommunicateWithServer strerr vt c = Inr (0, d) \<and> linked s' d \<and> resolver s' = wait r'
    \<and> is_connected s' = c' \<and> remaining wss (cl_read d) \<and> length wss = length ls \<and> buffer (cl_write d) = []
    \<and> corked d = corked c \<and> cl_connected d = cl_connected c"
proof -
  let ?from = "PrepareToWrite (cl_write c)"
  have rem: "left_lines ls ?from" by (rule PrepareToWrite_left [OF held])
  obtain l ms where ls: "ls = l # ms" using held(2) by (cases ls) auto
  have "\<not> IsAtEnd ?from" using left_lines_not_end rem unfolding ls by blast
  moreover have "abstract_replies strerr s (lines_of ?from) = (wss, r', c')"
    using served held(1) by (simp add: abstract_replies_def left_lines_of [OF rem] serve_all_wire holds_lines_def)
  ultimately obtain s' b where d: "DirectProcess strerr vt s ?from (PrepareToRead (cl_read c))
      = Inr (s', PrepareToRead (sv_read s), b)" "remaining wss b" "sv_write s' = PrepareToRead (cl_read c)"
    "resolver s' = wait r'" "is_connected s' = c'" "length wss = length (lines_of ?from)"
    using DirectProcess_answers [OF left_lines_readable [OF rem], of s strerr wss r' c' "PrepareToRead (cl_read c)"]
      first_line_fine [OF rem held(2)] linked by (auto simp: linked_def)
  then show ?thesis
    using linked by (simp add: CommunicateWithServer_def linked_def Let_def PrepareToRead_def left_lines_of [OF rem])
qed

text \<open>\<open>Uncork\<close> returns one packet for each queued request, in order.\<close>

lemma Uncork_linked:
  assumes "linked s c" and "queued reqs c" and "reqs \<noteq> []" and "RC_HWM \<notin> snd ` set reqs"
    and "serve_all (serve conn req err strerr) (resolver s, is_connected s) (map fst reqs) = (wss, r', c')"
  shows "\<exists>s' d. Uncork strerr vt c = Inr (packets wss (map snd reqs), d) \<and> length wss = length reqs
    \<and> linked s' d \<and> resolver s' = wait r' \<and> is_connected s' = c' \<and> corked d = [] \<and> buffer (cl_write d) = []
    \<and> cl_connected d = (cl_connected c \<or> connects (packets wss (map snd reqs)))"
proof -
  obtain m where m: "corked c = m # map (\<lambda>rc. cork_char (rc_word rc)) (map snd reqs)"
    and held: "holds_lines (map fst reqs) (cl_write c)" using assms(2) by (auto simp: queued_def)
  obtain s' d where d: "CommunicateWithServer strerr vt c = Inr (0, d)" "linked s' d" "resolver s' = wait r'"
    "is_connected s' = c'" "remaining wss (cl_read d)" "length wss = length (map fst reqs)" "buffer (cl_write d) = []"
    "corked d = corked c" "cl_connected d = cl_connected c"
    using exchange [OF assms(1) held, of strerr wss r' c'] assms(3,5) by auto
  have "uncork_loop d (tl (corked d)) = Inr (packets wss (map snd reqs),
      d\<lparr>cl_read := at_end (cl_read d), cl_connected := (cl_connected d \<or> connects (packets wss (map snd reqs)))\<rparr>)"
    using uncork_loop_remaining [OF d(5), of "map snd reqs"] d(6) assms(4) by (auto simp: d(8) m)
  then show ?thesis using d assms(3) by (simp add: Uncork_def m linked_def)
qed

text \<open>A request outside a cork is a block of one line.\<close>

lemma MaybeRequest_linked:
  assumes "linked s c" and "holds_lines [l] (cl_write c)" and "corked c = []" and "rc \<noteq> RC_HWM"
    and "serve conn req err strerr (resolver s, is_connected s) l = (vs, r', c')"
  shows "\<exists>s' d. MaybeRequest strerr vt c (rc_word rc) = Inr (reply_packet rc False (enc_line vs), d)
    \<and> linked s' d \<and> resolver s' = wait r' \<and> is_connected s' = c' \<and> corked d = [] \<and> buffer (cl_write d) = []
    \<and> cl_connected d = (cl_connected c \<or> GetCode (reply_packet rc False (enc_line vs)) = PC_CONNECT)"
proof -
  obtain s' d where d: "CommunicateWithServer strerr vt c = Inr (0, d)" "linked s' d" "resolver s' = wait r'"
    "is_connected s' = c'" "remaining [vs] (cl_read d)" "buffer (cl_write d) = []"
    "corked d = corked c" "cl_connected d = cl_connected c"
    using exchange [OF assms(1,2), of strerr "[vs]" r' c'] assms(5) by auto
  from ProcessResponse_remaining [OF d(5) assms(4), of True] d assms(3)
  show ?thesis by (simp add: MaybeRequest_def IsCorked_def linked_def)
qed

end

section \<open>Exchanges over descriptors\<close>

text \<open>Whatever the other side sends, a block the read loop accepts is made of complete lines.\<close>

lemma read_all_block:
  "ReadErr 0 \<notin> set rs \<Longrightarrow> split_block False (buffer b) = None \<Longrightarrow> lastBol b = 0
   \<Longrightarrow> read_all rs b = Inr (0, b', rest) \<Longrightarrow> readable b' \<and> \<not> IsAtEnd b'"
proof (induction rs arbitrary: b)
  case (Cons r rs)
  show ?case
  proof (cases r)
    case (ReadErr e)
    then have "e \<noteq> 0" using Cons.prems(1) by auto
    then show ?thesis using Cons ReadErr by (auto simp: Read_def split: if_splits)
  next
    case (Got cs)
    show ?thesis
    proof (cases "cs = []")
      case True
      then show ?thesis using Cons.prems Got by (simp add: Read_def)
    next
      case False
      note read = Read_split [OF Cons.prems(2) False]
      show ?thesis
      proof (cases "split_block False (buffer b @ cs)")
        case None
        have "read_all rs (b\<lparr>buffer := buffer b @ cs\<rparr>) = Inr (0, b', rest)"
          using Cons.prems(4) read Got None by simp
        from Cons.IH [OF _ _ _ this] show ?thesis using Cons.prems(1,3) None by simp
      next
        case (Some q)
        obtain blk more where q: "q = (blk, more)" by (cases q)
        then have "last blk = NL" "blk \<noteq> []" using Some split_block_last split_block_parts by auto
        then show ?thesis
          using Cons.prems read Got Some q by (auto simp: readable_def IsAtEnd_def split: if_splits)
      qed
    qed
  qed
qed simp

lemma write_all_faults: "write_all rs b = Inl h \<Longrightarrow> h = Diverges"
  by (induction rs arbitrary: b) (auto simp: Let_def bind_res_def split: prod.splits if_splits sum.splits)

lemma read_all_faults: "read_all rs b = Inl h \<Longrightarrow> h = Diverges"
  by (induction rs arbitrary: b) (auto simp: Let_def split: prod.splits if_splits)

lemma ProcessResponse_total:
  assumes "readable (cl_read c)" and "rc \<noteq> RC_HWM"
  shows "\<exists>p d. ProcessResponse c (rc_word rc) isLast = Inr (p, d) \<and> readable (cl_read d)"
proof (cases "IsAtEnd (cl_read c)")
  case True
  then show ?thesis using assms(1) by (simp add: ProcessResponse_missing)
next
  case False
  then show ?thesis
    using ProcessResponse_line [OF assms(1) False assms(2) refl] skip_line_readable [OF assms(1) False] by simp
qed

lemma uncork_loop_total:
  "readable (cl_read c) \<Longrightarrow> RC_HWM \<notin> set rcs
   \<Longrightarrow> \<exists>ps d. uncork_loop c (map (\<lambda>rc. cork_char (rc_word rc)) rcs) = Inr (ps, d) \<and> length ps = length rcs"
proof (induction rcs arbitrary: c)
  case (Cons rc rcs)
  obtain p d where "ProcessResponse c (rc_word rc) (rcs = []) = Inr (p, d)" "readable (cl_read d)"
    using ProcessResponse_total [of c rc "rcs = []"] Cons.prems by auto
  then show ?case using Cons.IH [of d] Cons.prems by auto
qed simp

text \<open>The exchange over descriptors, with any answers of the system.\<close>

lemma exchange_fds:
  assumes "channel c = Fds from_fd to_fd" and "ReadErr 0 \<notin> set (kernel_reads c)"
  shows "(\<exists>e d. CommunicateWithServer strerr vt c = Inr (e, d) \<and> corked d = corked c \<and> (e = 0 \<longrightarrow> readable (cl_read d)))
    \<or> CommunicateWithServer strerr vt c = Inl Diverges"
proof (cases "write_all (kernel_writes c) (PrepareToWrite (cl_write c))")
  case (Inl h)
  then show ?thesis using assms(1) write_all_faults [OF Inl] by (simp add: CommunicateWithServer_def Let_def)
next
  case (Inr r)
  obtain e sent w ws where r: "r = (e, sent, w, ws)" by (cases r)
  show ?thesis
  proof (cases "read_all (kernel_reads c) (PrepareToRead (cl_read c))")
    case (Inl h)
    then show ?thesis
      using assms(1) Inr r read_all_faults [OF Inl] by (simp add: CommunicateWithServer_def Let_def)
  next
    case read: (Inr q)
    obtain e' b rs where q: "q = (e', b, rs)" by (cases q)
    have "e' = 0 \<longrightarrow> readable b"
      using read_all_block [OF assms(2), of "PrepareToRead (cl_read c)" b rs] read q
      by (auto simp: PrepareToRead_def)
    then show ?thesis using assms(1) Inr r read q by (simp add: CommunicateWithServer_def Let_def)
  qed
qed

lemma send_block:
  assumes "takes_all (length (buffer b) + 1) ws"
  shows "\<exists>rest. write_all ws (PrepareToWrite b) = Inr (0, buffer b @ [NL], empty_buffer, rest)"
  using write_all_takes_all [of "PrepareToWrite b" ws] assms by (auto simp: PrepareToWrite_def)

lemma receive_block:
  assumes "ls \<noteq> []" and "[] \<notin> set ls" and "delivers (enc_block ls @ [NL]) rs"
  shows "\<exists>b rest. read_all rs (PrepareToRead c) = Inr (0, b, rest) \<and> remaining ls b"
proof -
  let ?b = "\<lparr>buffer = enc_block ls, lastBol = 0\<rparr>"
  have "holds_lines (map enc_line ls) ?b" using assms(2) holds_block_lines [of ls ?b] by (simp add: holds_block_def)
  from transport_block [OF this _ _ assms(3) [unfolded enc_block_def], of "[Wrote (length (enc_block ls) + 1)]" c, folded enc_block_def]
  obtain r where "read_all rs (PrepareToRead c) = Inr (0, \<lparr>buffer = enc_block ls @ [NL], lastBol = 0\<rparr>, r)"
    using assms(1) by auto
  moreover have "remaining ls \<lparr>buffer = enc_block ls @ [NL], lastBol = 0\<rparr>"
    using assms(1,2) by (auto simp: remaining_def)
  ultimately show ?thesis by blast
qed

text \<open>One message over descriptors, of any text, with the reply \<open>vs\<close> coming back in any pieces.\<close>

lemma MaybeRequest_fds:
  assumes "channel c = Fds from_fd to_fd" and "corked c = []" and "rc \<noteq> RC_HWM"
    and "buffer (cl_write c) = l" and "takes_all (length l + 1) (kernel_writes c)"
    and "vs \<noteq> []" and "delivers (enc_line vs @ [NL]) (kernel_reads c)"
  shows "\<exists>d. MaybeRequest strerr vt c (rc_word rc) = Inr (reply_packet rc False (enc_line vs), d)
    \<and> kernel_sent d = kernel_sent c @ l @ [NL] \<and> cl_write d = empty_buffer \<and> corked d = []"
proof -
  obtain w where w: "write_all (kernel_writes c) (PrepareToWrite (cl_write c)) = Inr (0, l @ [NL], empty_buffer, w)"
    using send_block [of "cl_write c" "kernel_writes c"] assms(4,5) by auto
  obtain b r where r: "read_all (kernel_reads c) (PrepareToRead (cl_read c)) = Inr (0, b, r)" "remaining [vs] b"
    using receive_block [of "[vs]" "kernel_reads c" "cl_read c"] assms(6,7) by (auto simp: enc_block_Cons)
  let ?d = "c\<lparr>cl_write := empty_buffer, cl_read := b, kernel_writes := w, kernel_reads := r,
    kernel_sent := kernel_sent c @ l @ [NL]\<rparr>"
  have "CommunicateWithServer strerr vt c = Inr (0, ?d)"
    using w r(1) assms(1) by (simp add: CommunicateWithServer_def Let_def)
  moreover have "remaining [vs] (cl_read ?d)" using r(2) by simp
  from ProcessResponse_remaining [OF this assms(3), of True]
  have "ProcessResponse ?d (rc_word rc) True = Inr (reply_packet rc False (enc_line vs), ?d\<lparr>cl_read := skip_line b,
      cl_connected := (cl_connected c \<or> GetCode (reply_packet rc False (enc_line vs)) = PC_CONNECT)\<rparr>)" by simp
  ultimately show ?thesis using assms(2) by (simp add: MaybeRequest_def IsCorked_def)
qed

end
