(* ===== verification/ClientCalls.thy ===== *)
theory ClientCalls
  imports ClientSpec
begin

text \<open>
  The seven requests of the client as values: the line each puts into the message, its
  request code, and the member function that makes it. Sequences of requests, corked or not,
  are then compared with the abstract server.
\<close>

section \<open>Requests as values\<close>

datatype call =
    CallConnect bytes bytes
  | CallRepo
  | CallExport bytes Flags
  | CallImport bytes Flags
  | CallCompiled bytes Flags
  | CallTranslate bytes Flags
  | CallInvoke "bytes list"

definition named_words :: "bytes \<Rightarrow> bytes \<Rightarrow> Flags \<Rightarrow> bytes list" where
  "named_words keyword n f = [keyword, n] @ (if f = 0 then [] else [to_string (unat f)])"

fun call_words :: "call \<Rightarrow> bytes list" where
  "call_words (CallConnect agent ident) = [''HELLO'', to_string 1, agent, ident]"
| "call_words CallRepo = [''MODULE-REPO'']"
| "call_words (CallExport n f) = named_words ''MODULE-EXPORT'' n f"
| "call_words (CallImport n f) = named_words ''MODULE-IMPORT'' n f"
| "call_words (CallCompiled n f) = named_words ''MODULE-COMPILED'' n f"
| "call_words (CallTranslate n f) = named_words ''INCLUDE-TRANSLATE'' n f"
| "call_words (CallInvoke args) = ''INVOKE'' # map (\<lambda>a. c_extent a None) args"

text \<open>
  The line: the words as the reference encodes them, but for \<open>INVOKE\<close>, whose arguments are C
  strings that go out as they are. Such a request is one line of a block if no argument has a
  newline and the line does not end in a semicolon; every other request always is.
\<close>

fun call_line :: "call \<Rightarrow> bytes" where
  "call_line (CallInvoke args) = join_sep [SPC] (call_words (CallInvoke args))"
| "call_line q = enc_line (call_words q)"

fun one_line :: "call \<Rightarrow> bool" where
  "one_line (CallInvoke args) \<longleftrightarrow> (\<forall>a \<in> set args. NL \<notin> set (c_extent a None)) \<and> last (call_line (CallInvoke args)) \<noteq> CONTINUE"
| "one_line _ \<longleftrightarrow> True"

fun call_code :: "call \<Rightarrow> RequestCode" where
  "call_code (CallConnect _ _) = RC_CONNECT"
| "call_code CallRepo = RC_MODULE_REPO"
| "call_code (CallExport _ _) = RC_MODULE_EXPORT"
| "call_code (CallImport _ _) = RC_MODULE_IMPORT"
| "call_code (CallCompiled _ _) = RC_MODULE_COMPILED"
| "call_code (CallTranslate _ _) = RC_INCLUDE_TRANSLATE"
| "call_code (CallInvoke _) = RC_INVOKE"

text \<open>
  The overloads for \<open>std::string\<close>, which pass the length; \<open>InvokeSubProcess\<close> has none for its
  arguments, which are C strings.
\<close>

fun make_call :: "(int \<Rightarrow> bytes) \<Rightarrow> 'r Resolver_vt \<Rightarrow> call \<Rightarrow> 'r Client \<Rightarrow> (Packet \<times> 'r Client) res" where
  "make_call strerr vt (CallConnect agent ident) c =
     Connect strerr vt agent ident (Some (length agent)) (Some (length ident)) c"
| "make_call strerr vt CallRepo c = ModuleRepo strerr vt c"
| "make_call strerr vt (CallExport n f) c = ModuleExport strerr vt n f (Some (length n)) c"
| "make_call strerr vt (CallImport n f) c = ModuleImport strerr vt n f (Some (length n)) c"
| "make_call strerr vt (CallCompiled n f) c = ModuleCompiled strerr vt n f (Some (length n)) c"
| "make_call strerr vt (CallTranslate n f) c = IncludeTranslate strerr vt n f (Some (length n)) c"
| "make_call strerr vt (CallInvoke args) c = InvokeSubProcess strerr vt args c"

text \<open>The part of each that comes before \<open>MaybeRequest\<close>: the message that is put into the buffer.\<close>

fun put_call :: "call \<Rightarrow> MessageBuffer \<Rightarrow> MessageBuffer" where
  "put_call (CallConnect agent ident) w =
     (let w = BeginLine w;
          w = AppendWord ''HELLO'' False None w;
          w = AppendInteger Version w;
          w = AppendWord agent True (Some (length agent)) w;
          w = AppendWord ident True (Some (length ident)) w
      in EndLine w)"
| "put_call CallRepo w = EndLine (AppendWord ''MODULE-REPO'' False None (BeginLine w))"
| "put_call (CallExport n f) w = put_named ''MODULE-EXPORT'' n f (Some (length n)) w"
| "put_call (CallImport n f) w = put_named ''MODULE-IMPORT'' n f (Some (length n)) w"
| "put_call (CallCompiled n f) w = put_named ''MODULE-COMPILED'' n f (Some (length n)) w"
| "put_call (CallTranslate n f) w = put_named ''INCLUDE-TRANSLATE'' n f (Some (length n)) w"
| "put_call (CallInvoke args) w =
     EndLine (fold (\<lambda>arg. AppendWord arg False None) args (AppendWord ''INVOKE'' False None (BeginLine w)))"

lemma make_call_puts:
  "make_call strerr vt q c = MaybeRequest strerr vt (c\<lparr>cl_write := put_call q (cl_write c)\<rparr>) (rc_word (call_code q))"
  by (cases q) (simp_all add: Connect_def ModuleRepo_def ModuleExport_def ModuleImport_def ModuleCompiled_def
      IncludeTranslate_def InvokeSubProcess_def Let_def)

lemma call_code_HWM [simp]: "call_code q \<noteq> RC_HWM" "RC_HWM \<noteq> call_code q"
  by (cases q; simp)+

lemma call_words_ne [simp]: "call_words q \<noteq> []" "[] \<noteq> call_words q"
  by (cases q; simp add: named_words_def)+

lemma put_named_holds:
  assumes "holds_after pre ls w" and "safe_word kw"
  shows "holds_after pre (ls @ [named_words kw n f]) (put_named kw n f (Some (length n)) w)"
proof -
  have "building pre ls ([] @ [kw]) (AppendWord_string kw False (BeginLine w))"
    using assms by (intro after.put_partial after.begin_partial) auto
  then have 1: "building pre ls (([] @ [kw]) @ [n]) (AppendWord_string n True (AppendWord_string kw False (BeginLine w)))"
    by (rule after.put_partial) simp
  from after.put_partial [OF this, of False "to_string (unat f)"]
  have 2: "building pre ls ((([] @ [kw]) @ [n]) @ [to_string (unat f)])
      (AppendInteger f (AppendWord_string n True (AppendWord_string kw False (BeginLine w))))"
    by (simp add: AppendInteger_def)
  show ?thesis
    using after.end_whole [OF 1] after.end_whole [OF 2] assms(2)
    by (simp add: put_named_def named_words_def Let_def AppendWord_as_string Flags_None_def)
qed

lemma put_words_holds:
  assumes "holds_after pre ls w" and "\<And>args. q \<noteq> CallInvoke args"
  shows "holds_after pre (ls @ [call_words q]) (put_call q w)"
proof (cases q)
  case (CallConnect agent ident)
  have "building pre ls ([] @ [''HELLO'']) (AppendWord_string ''HELLO'' False (BeginLine w))"
    by (rule after.put_partial [OF after.begin_partial [OF assms(1)]]) simp
  from after.put_partial [OF this, of False "to_string 1"]
  have "building pre ls ([''HELLO''] @ [to_string 1])
      (AppendInteger Version (AppendWord_string ''HELLO'' False (BeginLine w)))"
    by (simp add: AppendInteger_def)
  from after.end_whole [OF after.put_partial [OF after.put_partial [OF this, of True agent], of True ident]]
  show ?thesis by (simp add: CallConnect Let_def AppendWord_as_string)
next
  case CallRepo
  then show ?thesis
    using after.keyword_line [OF assms(1), of "''MODULE-REPO''"] by (simp add: AppendWord_as_string)
qed (use put_named_holds [OF assms(1)] assms(2) in simp_all)

lemma join_sep_SPC: "join_sep [SPC] (w # ws) = w @ concat (map (\<lambda>a. SPC # a) ws)"
  by (induction ws arbitrary: w) (simp_all add: join_sep_Cons)

text \<open>Every request adds its line to the message and goes through \<open>MaybeRequest\<close>.\<close>

lemma put_call_buffer:
  assumes "[] \<notin> set ls" and "buffer w = text_block ls"
  shows "buffer (put_call q w) = text_block (ls @ [call_line q])"
proof (cases "\<exists>args. q = CallInvoke args")
  case True
  then obtain args where q: "q = CallInvoke args" by blast
  let ?b = "AppendWord ''INVOKE'' False None (BeginLine w)"
  have "c_extent ''INVOKE'' None = ''INVOKE''" by code_simp
  then have b: "buffer ?b = line_start ls @ ''INVOKE''" "lastBol ?b = length (line_start ls)"
    using BeginLine_start [OF assms] by (simp_all add: AppendWord_adds app_bytes_def)
  then show ?thesis
    using fold_AppendWord_raw [of ?b args] by (simp add: q EndLine_def text_block_snoc join_sep_SPC comp_def)
next
  case False
  have "holds_after ls [] w" using assms by (simp add: holds_after_def)
  with False have "holds_after ls [call_words q] (put_call q w)" using put_words_holds [of ls "[]" w q] by auto
  then show ?thesis using False by (cases q) (simp_all add: holds_after_def)
qed

lemma plain_call_line:
  assumes "one_line q"
  shows "plain_line (call_line q)"
proof (cases "\<exists>args. q = CallInvoke args")
  case True
  then obtain args where q: "q = CallInvoke args" by blast
  have "NL \<notin> set (call_line q)" using assms by (auto simp: q join_sep_SPC)
  then show ?thesis using assms by (simp add: q plain_line_def join_sep_SPC)
next
  case False
  then have "call_line q = enc_line (call_words q)" by (cases q) simp_all
  then show ?thesis by simp
qed

lemma put_call_holds:
  assumes "holds_lines ls w" and "one_line q"
  shows "holds_lines (ls @ [call_line q]) (put_call q w)"
proof -
  have "[] \<notin> set ls" using assms(1) by (auto simp: holds_lines_def list_all_iff plain_line_def)
  then show ?thesis
    using put_call_buffer [of ls w q] plain_call_line [OF assms(2)] assms(1) by (simp add: holds_lines_def)
qed

lemma put_call_first: "buffer w = [] \<Longrightarrow> buffer (put_call q w) = call_line q"
  using put_call_buffer [of "[]" w q] by (simp add: text_block_Cons)

lemma make_call_eq:
  assumes "holds_lines ls (cl_write c)" and "one_line q"
  shows "\<exists>w. make_call strerr vt q c = MaybeRequest strerr vt (c\<lparr>cl_write := w\<rparr>) (rc_word (call_code q))
    \<and> holds_lines (ls @ [call_line q]) w"
  using make_call_puts put_call_holds [OF assms] by blast

section \<open>Corked requests\<close>

definition call_reqs :: "call list \<Rightarrow> (bytes \<times> RequestCode) list" where
  "call_reqs qs = map (\<lambda>q. (call_line q, call_code q)) qs"

lemma make_call_corked:
  assumes "queued reqs c" and "one_line q"
  shows "\<exists>d. make_call strerr vt q c = Inr (Packet_int PC_CORKED 0, d)
    \<and> queued (reqs @ [(call_line q, call_code q)]) d \<and> channel d = channel c \<and> cl_read d = cl_read c
    \<and> cl_connected d = cl_connected c \<and> kernel_sent d = kernel_sent c
    \<and> kernel_writes d = kernel_writes c \<and> kernel_reads d = kernel_reads c"
proof -
  obtain w where "make_call strerr vt q c = MaybeRequest strerr vt (c\<lparr>cl_write := w\<rparr>) (rc_word (call_code q))"
    "holds_lines (map fst reqs @ [call_line q]) w"
    using make_call_eq assms by (fastforce simp: queued_def)
  then show ?thesis using assms by (auto simp: MaybeRequest_def IsCorked_def queued_def)
qed

text \<open>Making requests one after the other, collecting their packets.\<close>

fun make_calls :: "(int \<Rightarrow> bytes) \<Rightarrow> 'r Resolver_vt \<Rightarrow> call list \<Rightarrow> 'r Client \<Rightarrow> (Packet list \<times> 'r Client) res" where
  "make_calls strerr vt [] c = Inr ([], c)"
| "make_calls strerr vt (q # qs) c =
     bind_res (make_call strerr vt q c) (\<lambda>(p, c).
     bind_res (make_calls strerr vt qs c) (\<lambda>(ps, c). Inr (p # ps, c)))"

lemma make_calls_corked:
  "queued reqs c \<Longrightarrow> list_all one_line qs \<Longrightarrow> \<exists>d. make_calls strerr vt qs c = Inr (replicate (length qs) (Packet_int PC_CORKED 0), d)
    \<and> queued (reqs @ call_reqs qs) d \<and> channel d = channel c \<and> cl_connected d = cl_connected c
    \<and> kernel_writes d = kernel_writes c \<and> kernel_reads d = kernel_reads c \<and> kernel_sent d = kernel_sent c"
proof (induction qs arbitrary: reqs c)
  case (Cons q qs)
  obtain d where d: "make_call strerr vt q c = Inr (Packet_int PC_CORKED 0, d)"
    "queued (reqs @ [(call_line q, call_code q)]) d" "channel d = channel c" "cl_connected d = cl_connected c"
    "kernel_writes d = kernel_writes c" "kernel_reads d = kernel_reads c" "kernel_sent d = kernel_sent c"
    using make_call_corked [OF Cons.prems(1), of q] Cons.prems(2) by auto
  have "list_all one_line qs" using Cons.prems(2) by simp
  from Cons.IH [OF d(2) this] d show ?case by (auto simp: call_reqs_def)
qed (simp add: call_reqs_def)

lemma Cork_queued: "corked c = [] \<Longrightarrow> buffer (cl_write c) = [] \<Longrightarrow> queued [] (Cork c)"
  by (simp add: Cork_def queued_def)

section \<open>Requests over a direct connection\<close>

text \<open>A client that is neither corked nor in the middle of a message.\<close>

definition idle :: "'r Client \<Rightarrow> bool" where
  "idle c \<longleftrightarrow> corked c = [] \<and> buffer (cl_write c) = []"

abbreviation call_lines :: "call list \<Rightarrow> bytes list" where
  "call_lines qs \<equiv> map call_line qs"

context direct_contract
begin

lemma make_call_linked:
  assumes "linked s c" and "idle c" and "one_line q"
    and "serve conn req err strerr (resolver s, is_connected s) (call_line q) = (vs, r', c')"
  shows "\<exists>s' d. make_call strerr vt q c = Inr (reply_packet (call_code q) False (enc_line vs), d)
    \<and> linked s' d \<and> idle d \<and> resolver s' = wait r' \<and> is_connected s' = c'
    \<and> cl_connected d = (cl_connected c \<or> GetCode (reply_packet (call_code q) False (enc_line vs)) = PC_CONNECT)"
proof -
  have "holds_lines [] (cl_write c)" using assms(2) by (simp add: idle_def)
  from make_call_eq [OF this assms(3)] obtain w where
    w: "make_call strerr vt q c = MaybeRequest strerr vt (c\<lparr>cl_write := w\<rparr>) (rc_word (call_code q))"
    "holds_lines [call_line q] w" by fastforce
  show ?thesis
    using MaybeRequest_linked [of s "c\<lparr>cl_write := w\<rparr>" "call_line q" "call_code q" strerr vs r' c'] assms w
    by (auto simp: idle_def linked_def)
qed

lemma make_calls_linked:
  assumes "\<And>r. wait r = r" and "linked s c" and "idle c" and "list_all one_line qs"
    and "serve_all (serve conn req err strerr) (resolver s, is_connected s) (call_lines qs) = (wss, r', c')"
  shows "\<exists>s' d. make_calls strerr vt qs c = Inr (packets wss (map call_code qs), d)
    \<and> linked s' d \<and> idle d \<and> resolver s' = r' \<and> is_connected s' = c'
    \<and> cl_connected d = (cl_connected c \<or> connects (packets wss (map call_code qs)))"
  using assms(2-5)
proof (induction qs arbitrary: s c wss)
  case Nil
  then show ?case by (auto simp: packets_def)
next
  case (Cons q qs)
  obtain vs r1 c1 where step: "serve conn req err strerr (resolver s, is_connected s) (call_line q) = (vs, r1, c1)"
    by (metis prod_cases3)
  obtain vss where rest: "serve_all (serve conn req err strerr) (r1, c1) (call_lines qs) = (vss, r', c')"
    and wss: "wss = vs # vss"
    using Cons.prems(4) step by (auto split: prod.splits simp del: serve.simps)
  obtain s1 d1 where one: "make_call strerr vt q c = Inr (reply_packet (call_code q) False (enc_line vs), d1)"
    "linked s1 d1" "idle d1" "resolver s1 = r1" "is_connected s1 = c1"
    "cl_connected d1 = (cl_connected c \<or> GetCode (reply_packet (call_code q) False (enc_line vs)) = PC_CONNECT)"
    using make_call_linked [OF Cons.prems(1,2) _ step] Cons.prems(3) assms(1) by auto
  from Cons.IH [OF one(2,3), of vss] rest one Cons.prems(3) show ?case by (auto simp: wss)
qed

lemma corked_calls_linked:
  assumes "linked s c" and "idle c" and "list_all one_line qs" and "qs \<noteq> []"
    and served: "serve_all (serve conn req err strerr) (resolver s, is_connected s) (call_lines qs) = (wss, r', c')"
  shows "\<exists>c1 s' d. make_calls strerr vt qs (Cork c) = Inr (replicate (length qs) (Packet_int PC_CORKED 0), c1)
    \<and> Uncork strerr vt c1 = Inr (packets wss (map call_code qs), d)
    \<and> linked s' d \<and> idle d \<and> resolver s' = wait r' \<and> is_connected s' = c' \<and> length wss = length qs
    \<and> cl_connected d = (cl_connected c \<or> connects (packets wss (map call_code qs)))"
proof -
  have "queued [] (Cork c)" using assms(2) by (intro Cork_queued) (simp_all add: idle_def)
  from make_calls_corked [OF this assms(3), of strerr vt] obtain c1 where
    c1: "make_calls strerr vt qs (Cork c) = Inr (replicate (length qs) (Packet_int PC_CORKED 0), c1)"
    "queued (call_reqs qs) c1" "channel c1 = channel (Cork c)" "cl_connected c1 = cl_connected (Cork c)" by auto
  have cork: "channel (Cork c) = channel c" "cl_connected (Cork c) = cl_connected c" by (simp_all add: Cork_def)
  have "linked s c1" using assms(1) c1(3) cork by (simp add: linked_def)
  moreover have "call_reqs qs \<noteq> []" "RC_HWM \<notin> snd ` set (call_reqs qs)"
    using assms(4) by (auto simp: call_reqs_def)
  moreover have "map fst (call_reqs qs) = call_lines qs" "map snd (call_reqs qs) = map call_code qs"
    "length (call_reqs qs) = length qs"
    by (simp_all add: call_reqs_def)
  ultimately show ?thesis
    using Uncork_linked [of s c1 "call_reqs qs" strerr wss r' c'] c1 cork served by (auto simp: idle_def)
qed

end

end
