(* ===== verification/ServerConn.thy ===== *)
theory ServerConn
  imports ServerContract
begin

text \<open>
  The life of a connection (\<open>Server::Direction\<close>): the server reads until a block is
  complete, processes it, writes the replies, and reads again. Each rule is one operation of
  \<open>Server\<close> in the state the documentation prescribes, with one answer of the system; the label
  is what crossed the connection. The abstract view is a function on streams: the bytes
  received, cut into blocks, determine the bytes sent.
\<close>

section \<open>Steps\<close>

datatype io = Rx bytes | Tx bytes | Idle

inductive conn_step :: "(int \<Rightarrow> bytes) \<Rightarrow> 'r Resolver_vt \<Rightarrow> 'r Server \<Rightarrow> io \<Rightarrow> 'r Server \<Rightarrow> bool"
  for strerr vt where
  read_more: "GetDirection s = READING \<Longrightarrow> Server_Read (Got cs) s = (EAGAIN, s') \<Longrightarrow> conn_step strerr vt s (Rx cs) s'"
| read_retry: "GetDirection s = READING \<Longrightarrow> e = EAGAIN \<or> e = EINTR \<Longrightarrow> Server_Read (ReadErr e) s = (e, s')
    \<Longrightarrow> conn_step strerr vt s Idle s'"
| read_block: "GetDirection s = READING \<Longrightarrow> Server_Read (Got cs) s = (0, s1) \<Longrightarrow> ProcessRequests strerr vt s1 = Inr s'
    \<Longrightarrow> conn_step strerr vt s (Rx cs) s'"
| respond: "GetDirection s = PROCESSING \<Longrightarrow> conn_step strerr vt s Idle (Server_PrepareToWrite s)"
| write_more: "GetDirection s = WRITING \<Longrightarrow> k \<le> length (buffer (sv_write s)) - lastBol (sv_write s)
    \<Longrightarrow> Server_Write (Wrote k) s = (EAGAIN, out, s') \<Longrightarrow> conn_step strerr vt s (Tx out) s'"
| write_retry: "GetDirection s = WRITING \<Longrightarrow> e = EAGAIN \<or> e = EINTR \<Longrightarrow> Server_Write (WriteErr e) s = (e, out, s')
    \<Longrightarrow> conn_step strerr vt s Idle s'"
| write_done: "GetDirection s = WRITING \<Longrightarrow> k \<le> length (buffer (sv_write s)) - lastBol (sv_write s)
    \<Longrightarrow> Server_Write (Wrote k) s = (0, out, s1) \<Longrightarrow> conn_step strerr vt s (Tx out) (Server_PrepareToRead s1)"

fun rx_of :: "io \<Rightarrow> bytes" where
  "rx_of (Rx cs) = cs"
| "rx_of _ = []"

fun tx_of :: "io \<Rightarrow> bytes" where
  "tx_of (Tx cs) = cs"
| "tx_of _ = []"

text \<open>The states reachable from \<open>s0\<close>, with all the bytes received and sent on the way.\<close>

inductive conn_run ::
  "(int \<Rightarrow> bytes) \<Rightarrow> 'r Resolver_vt \<Rightarrow> 'r Server \<Rightarrow> bytes \<Rightarrow> bytes \<Rightarrow> 'r Server \<Rightarrow> bool"
  for strerr vt s0 where
  start: "conn_run strerr vt s0 [] [] s0"
| step: "conn_run strerr vt s0 rx tx s \<Longrightarrow> conn_step strerr vt s l s'
    \<Longrightarrow> conn_run strerr vt s0 (rx @ rx_of l) (tx @ tx_of l) s'"

section \<open>Streams\<close>

text \<open>The complete blocks at the beginning of a stream, and what follows them.\<close>

function blocks_of :: "bytes \<Rightarrow> bytes list \<times> bytes" where
  "blocks_of s =
     (case split_block False s of
        None \<Rightarrow> ([], s)
      | Some (blk, rest) \<Rightarrow> (let (blks, part) = blocks_of rest in (blk # blks, part)))"
  by pat_completeness auto
termination
  by (relation "measure length") (auto dest!: split_block_parts)

declare blocks_of.simps [simp del]

text \<open>The bytes sent in answer to a list of blocks, over one step of the abstract server.\<close>

fun reply_stream ::
  "('r \<times> bool \<Rightarrow> bytes \<Rightarrow> bytes list \<times> 'r \<times> bool) \<Rightarrow> 'r \<times> bool \<Rightarrow> bytes list \<Rightarrow> bytes \<times> 'r \<times> bool" where
  "reply_stream sv st [] = ([], st)"
| "reply_stream sv st (blk # blks) =
     (let (wss, st) = serve_all sv st (nl_lines blk);
          (out, st) = reply_stream sv st blks
      in (enc_block wss @ [NL] @ out, st))"

lemma blocks_of_None: "split_block False s = None \<Longrightarrow> blocks_of s = ([], s)"
  by (subst blocks_of.simps) simp

lemma blocks_of_Some:
  "split_block False s = Some (blk, rest) \<Longrightarrow> blocks_of s = (blk # fst (blocks_of rest), snd (blocks_of rest))"
  by (subst blocks_of.simps) (simp add: split_def Let_def)

lemma blocks_of_Nil [simp]: "blocks_of [] = ([], [])"
  by (simp add: blocks_of_None)

lemma blocks_of_append:
  "blocks_of (u @ v) = (fst (blocks_of u) @ fst (blocks_of (snd (blocks_of u) @ v)), snd (blocks_of (snd (blocks_of u) @ v)))"
proof (induction u rule: blocks_of.induct)
  case (1 u)
  show ?case
  proof (cases "split_block False u")
    case None
    then show ?thesis by (simp add: blocks_of_None)
  next
    case (Some a)
    then obtain blk rest where a: "split_block False u = Some (blk, rest)" by (cases a) auto
    then have "split_block False (u @ v) = Some (blk, rest @ v)" by (simp add: split_block_append)
    then show ?thesis using "1.IH" [OF a refl] a by (simp add: blocks_of_Some)
  qed
qed

lemma blocks_of_part: "split_block False (snd (blocks_of s)) = None"
proof (induction s rule: blocks_of.induct)
  case (1 s)
  show ?case
  proof (cases "split_block False s")
    case (Some a)
    then obtain blk rest where "split_block False s = Some (blk, rest)" by (cases a) auto
    with "1.IH" [OF this refl] show ?thesis by (simp add: blocks_of_Some)
  qed (simp add: blocks_of_None)
qed

lemma blocks_of_more: "blocks_of s = (bs, p) \<Longrightarrow> split_block False (p @ cs) = None \<Longrightarrow> blocks_of (s @ cs) = (bs, p @ cs)"
  by (subst blocks_of_append) (simp add: blocks_of_None)

lemma blocks_of_complete:
  "blocks_of s = (bs, p) \<Longrightarrow> split_block False (p @ cs) = Some (blk, []) \<Longrightarrow> blocks_of (s @ cs) = (bs @ [blk], [])"
  by (subst blocks_of_append) (simp add: blocks_of_Some)

lemma reply_stream_snoc:
  "reply_stream sv st (blks @ [blk]) =
     (let (out, st) = reply_stream sv st blks; (wss, st) = serve_all sv st (nl_lines blk)
      in (out @ enc_block wss @ [NL], st))"
  by (induction sv st blks rule: reply_stream.induct) (auto simp: Let_def split: prod.split)

section \<open>The invariant\<close>

text \<open>
  What is sent and what is still to be sent together are the replies to the complete blocks
  received; the state of the abstract server is the one after these blocks.
\<close>

definition conn_inv ::
  "('r \<times> bool \<Rightarrow> bytes \<Rightarrow> bytes list \<times> 'r \<times> bool) \<Rightarrow> 'r \<times> bool \<Rightarrow> bytes \<Rightarrow> bytes \<Rightarrow> 'r Server \<Rightarrow> bool" where
  "conn_inv sv st0 rx tx s \<longleftrightarrow>
     (case blocks_of rx of (blks, part) \<Rightarrow>
        \<exists>out. reply_stream sv st0 blks = (out, resolver s, is_connected s) \<and>
        (case direction s of
           READING \<Rightarrow> tx = out \<and> sv_read s = \<lparr>buffer = part, lastBol = 0\<rparr> \<and> buffer (sv_write s) = []
         | PROCESSING \<Rightarrow> part = [] \<and> (\<exists>wss. holds_block wss (sv_write s) \<and> out = tx @ enc_block wss @ [NL])
         | WRITING \<Rightarrow> part = [] \<and> drop (lastBol (sv_write s)) (buffer (sv_write s)) \<noteq> []
             \<and> out = tx @ drop (lastBol (sv_write s)) (buffer (sv_write s))))"

text \<open>A server between two blocks, as a new one is.\<close>

definition awaiting :: "'r Server \<Rightarrow> bool" where
  "awaiting s \<longleftrightarrow> direction s = READING \<and> sv_read s = empty_buffer \<and> buffer (sv_write s) = []"

lemma new_awaiting [simp]:
  "awaiting (Server_new r f t)" "resolver (Server_new r f t) = r" "is_connected (Server_new r f t) = False"
  by (simp_all add: awaiting_def Server_new_def Server_PrepareToRead_def PrepareToRead_def empty_buffer_def)

lemma conn_inv_start: "awaiting s \<Longrightarrow> conn_inv sv (resolver s, is_connected s) [] [] s"
  by (simp add: conn_inv_def awaiting_def empty_buffer_def)

lemmas conn_ops = GetDirection_def Server_Read_def Server_Write_def Server_PrepareToRead_def Server_PrepareToWrite_def

context resolver_contract
begin

lemma block_processed:
  assumes "split_block False blk = Some (blk, [])" and "sv_read s = \<lparr>buffer = blk, lastBol = 0\<rparr>"
    and "buffer (sv_write s) = []" and "ProcessRequests strerr vt s = Inr s'"
    and "serve_all (serve conn req err strerr) (resolver s, is_connected s) (nl_lines blk) = (wss, r', c')"
  shows "direction s' = PROCESSING" "resolver s' = r'" "is_connected s' = c'" "holds_block wss (sv_write s')"
proof -
  have blk: "blk \<noteq> []" "last blk = NL" using split_block_parts [OF assms(1)] split_block_last [OF assms(1)] by auto
  then have at: "readable (sv_read s)" "\<not> IsAtEnd (sv_read s)"
    using assms(2) by (auto simp: readable_def IsAtEnd_def)
  have first: "next_line (sv_read s) \<noteq> [] \<and> next_line (sv_read s) \<noteq> [CONTINUE]"
    using bad_first_line_faults [OF at] assms(2,4) by auto
  have "holds_block [] (sv_write s)" using assms(3) by (simp add: holds_block_def)
  moreover have "abstract_replies strerr s (lines_of (sv_read s)) = (wss, r', c')"
    using assms(2,5) by (simp add: abstract_replies_def lines_of_def)
  ultimately show "direction s' = PROCESSING" "resolver s' = r'" "is_connected s' = c'" "holds_block wss (sv_write s')"
    using ProcessRequests_answers [OF at(1) first, of "[]" strerr wss r' c'] assms(4) by auto
qed

lemma conn_step_inv:
  assumes "conn_inv (serve conn req err strerr) st0 rx tx s" and "conn_step strerr vt s l s'"
  shows "conn_inv (serve conn req err strerr) st0 (rx @ rx_of l) (tx @ tx_of l) s'"
proof -
  let ?sv = "serve conn req err strerr"
  obtain blks part where bl: "blocks_of rx = (blks, part)" by (cases "blocks_of rx")
  have part: "split_block False part = None" using blocks_of_part [of rx] bl by simp
  obtain out where out: "reply_stream ?sv st0 blks = (out, resolver s, is_connected s)"
    using assms(1) bl by (auto simp: conn_inv_def)
  have reading: "tx = out" "sv_read s = \<lparr>buffer = part, lastBol = 0\<rparr>" "buffer (sv_write s) = []" if "GetDirection s = READING"
    using assms(1) bl out that by (auto simp: conn_inv_def GetDirection_def)
  show ?thesis
    using assms(2)
  proof cases
    case (read_more cs)
    note r = reading [OF read_more(2)]
    have "cs \<noteq> []" using read_more(3) by (auto simp: Server_Read_def Read_def Let_def)
    then have "split_block False (part @ cs) = None" "s' = s\<lparr>sv_read := \<lparr>buffer = part @ cs, lastBol = 0\<rparr>\<rparr>"
      using read_more(3) Read_split [of "sv_read s" cs] part r(2)
      by (auto simp: Server_Read_def split: option.splits if_splits prod.splits)
    then show ?thesis
      using blocks_of_more [OF bl] out r read_more(1,2) by (simp add: conn_inv_def GetDirection_def)
  next
    case (read_block cs s1)
    note r = reading [OF read_block(2)]
    have "cs \<noteq> []" using read_block(3) by (auto simp: Server_Read_def Read_def Let_def)
    then obtain blk where blk: "split_block False (part @ cs) = Some (blk, [])" "s1 = s\<lparr>sv_read := \<lparr>buffer = blk, lastBol = 0\<rparr>\<rparr>"
      using read_block(3) Read_split [of "sv_read s" cs] part r(2)
      by (auto simp: Server_Read_def split: option.splits if_splits prod.splits)
    then have "split_block False blk = Some (blk, [])" using split_block_parts [OF blk(1)] by simp
    moreover obtain wss r' c' where w: "serve_all ?sv (resolver s, is_connected s) (nl_lines blk) = (wss, r', c')"
      by (metis prod_cases3)
    ultimately have "direction s' = PROCESSING" "resolver s' = r'" "is_connected s' = c'" "holds_block wss (sv_write s')"
      using block_processed [of blk s1 strerr s' wss r' c'] read_block(4) blk(2) r by auto
    then show ?thesis
      using blocks_of_complete [OF bl blk(1)] out r read_block(1) w
      by (auto simp: conn_inv_def reply_stream_snoc Let_def)
  next
    case (write_more k sent)
    let ?d = "drop (lastBol (sv_write s)) (buffer (sv_write s))"
    have "k < length ?d" "sent = take k ?d" "s' = s\<lparr>sv_write := (sv_write s)\<lparr>lastBol := lastBol (sv_write s) + k\<rparr>\<rparr>"
      using write_more(3,4) by (auto simp: Server_Write_def Write_def Let_def split: if_splits)
    moreover have "?d = take k ?d @ drop (lastBol (sv_write s) + k) (buffer (sv_write s))"
      using append_take_drop_id [of k ?d] by (simp add: add.commute)
    ultimately show ?thesis using assms(1) bl out write_more(1,2)
      by (auto simp: conn_inv_def GetDirection_def)
  next
    case respond
    then show ?thesis using assms(1) bl out
      by (auto simp: conn_inv_def conn_ops PrepareToWrite_def holds_block_def)
  qed (use assms(1) bl out in \<open>auto simp: conn_inv_def conn_ops Read_def Write_def Let_def PrepareToRead_def split: if_splits prod.splits\<close>)
qed

lemma conn_run_inv: "conn_run strerr vt (Server_new r f t) rx tx s
    \<Longrightarrow> conn_inv (serve conn req err strerr) (r, False) rx tx s"
proof (induction rule: conn_run.induct)
  case start
  show ?case using conn_inv_start [OF new_awaiting(1), of "serve conn req err strerr" r f t] by simp
qed (rule conn_step_inv)

end

end
