(* ===== verification/LinkSpec.thy ===== *)
theory LinkSpec
  imports Link
begin

text \<open>
  The invariant of one exchange over a link: how what the client has sent, what is on its
  way, and what the server has taken make up the request, and likewise for the reply; and the
  count of steps these amount to. From it: the result of a complete run, progress, and the
  bound on the number of steps.
\<close>

section \<open>The server in the middle of an exchange\<close>

text \<open>
  The server that has received \<open>rx\<close> of the request \<open>rq\<close>: before the end of the request it
  has changed nothing and said nothing; afterwards it is in the state of the abstract server
  and has said a beginning of the reply \<open>rp\<close>.
\<close>

lemma server_before:
  assumes "split_block False rq = Some (rq, [])" and "conn_inv sv st0 rx tx s" and "rx @ left = rq" and "left \<noteq> []"
  shows "direction s = READING" "tx = []" "sv_read s = \<lparr>buffer = rx, lastBol = 0\<rparr>" "buffer (sv_write s) = []"
    "(resolver s, is_connected s) = st0"
proof -
  have "split_block False rx = None" using assms(1,3,4) split_block_prefix by blast
  then have "blocks_of rx = ([], rx)" by (rule blocks_of_None)
  then show "direction s = READING" "tx = []" "sv_read s = \<lparr>buffer = rx, lastBol = 0\<rparr>" "buffer (sv_write s) = []"
    "(resolver s, is_connected s) = st0"
    using assms(2) by (auto simp: conn_inv_def split: Direction.splits)
qed

lemma server_after:
  assumes "split_block False rq = Some (rq, [])" and "conn_inv sv st0 rq tx s"
    and "serve_all sv st0 (nl_lines rq) = (wss, r', c')" and "rp = enc_block wss @ [NL]"
  shows "resolver s = r'" "is_connected s = c'" "\<exists>left. rp = tx @ left" "direction s = READING \<longleftrightarrow> tx = rp"
    "direction s = READING \<Longrightarrow> awaiting s"
    "direction s = WRITING \<Longrightarrow> drop (lastBol (sv_write s)) (buffer (sv_write s)) \<noteq> []"
proof -
  have "blocks_of rq = ([rq], [])" using blocks_of_Some [OF assms(1)] by simp
  then show "resolver s = r'" "is_connected s = c'" "\<exists>left. rp = tx @ left" "direction s = READING \<longleftrightarrow> tx = rp"
    "direction s = READING \<Longrightarrow> awaiting s"
    "direction s = WRITING \<Longrightarrow> drop (lastBol (sv_write s)) (buffer (sv_write s)) \<noteq> []"
    using assms(2-4) by (auto simp: conn_inv_def awaiting_def empty_buffer_def split: Direction.splits)
qed

section \<open>Counting\<close>

text \<open>The turn to the reply counts as one step, besides the bytes.\<close>

definition responded :: "bytes \<Rightarrow> bytes \<Rightarrow> 'r Server \<Rightarrow> nat" where
  "responded rq rx s = of_bool (direction s = WRITING \<or> direction s = READING \<and> rx = rq)"

lemma conn_step_gain:
  assumes "conn_step strerr vt s l s'" and "direction s \<noteq> READING \<Longrightarrow> rx = rq" and "rx_of l \<noteq> [] \<Longrightarrow> rx \<noteq> rq"
  shows "responded rq rx s + of_bool (GetDirection s = PROCESSING \<or> rx_of l \<noteq> [] \<or> tx_of l \<noteq> [])
    \<le> responded rq (rx @ rx_of l) s' + length (rx_of l) + length (tx_of l)"
  using assms(1)
proof cases
  case (write_more k out)
  then have "direction s' = WRITING" by (auto simp: conn_ops split: prod.splits)
  then show ?thesis using write_more(1,2) by (cases out) (auto simp: responded_def GetDirection_def)
next
  case (write_done k out s1)
  then show ?thesis using assms(2) by (cases out) (auto simp: responded_def conn_ops)
next
  case (write_retry e out)
  then have "direction s' = WRITING" by (auto simp: conn_ops split: prod.splits)
  then show ?thesis using write_retry(1,2) by (simp add: responded_def GetDirection_def)
next
  case (read_retry e)
  then have "direction s' = READING" by (auto simp: conn_ops split: prod.splits)
  then show ?thesis using read_retry(1,2) by (simp add: responded_def GetDirection_def)
next
  case (read_more cs)
  have "cs \<noteq> []" using read_more(3) by (auto simp: Server_Read_def Read_def Let_def)
  then show ?thesis using read_more(1,2) assms(3) by (cases cs) (auto simp: responded_def GetDirection_def)
next
  case (read_block cs s1)
  have "cs \<noteq> []" using read_block(3) by (auto simp: Server_Read_def Read_def Let_def)
  then show ?thesis using read_block(1,2) assms(3) by (cases cs) (auto simp: responded_def GetDirection_def)
qed (auto simp: responded_def conn_ops)

section \<open>The invariant\<close>

definition owed :: "'r link \<Rightarrow> bytes" where
  "owed x = drop (lastBol (lk_write x)) (buffer (lk_write x))"

text \<open>The client's side, given what the server has said.\<close>

definition phase_inv :: "bytes \<Rightarrow> bytes \<Rightarrow> bytes \<Rightarrow> 'r link \<Rightarrow> bool" where
  "phase_inv rq rp tx x \<longleftrightarrow>
     (case lk_phase x of
        Sending \<Rightarrow> lk_sent x @ owed x = rq \<and> owed x \<noteq> [] \<and> lk_read x = empty_buffer \<and> tx = lk_down x
      | Receiving \<Rightarrow> lk_sent x = rq \<and> lk_write x = empty_buffer \<and> lastBol (lk_read x) = 0
          \<and> buffer (lk_read x) \<noteq> rp \<and> tx = buffer (lk_read x) @ lk_down x
      | Returned e \<Rightarrow> e = 0 \<and> lk_sent x = rq \<and> lk_write x = empty_buffer
          \<and> lk_read x = \<lparr>buffer = rp, lastBol = 0\<rparr> \<and> lk_down x = [] \<and> tx = rp)"

definition link_inv ::
  "('r \<times> bool \<Rightarrow> bytes \<Rightarrow> bytes list \<times> 'r \<times> bool) \<Rightarrow> 'r \<times> bool \<Rightarrow> bytes \<Rightarrow> bytes \<Rightarrow> nat \<Rightarrow> 'r link \<Rightarrow> bool" where
  "link_inv sv st0 rq rp n x \<longleftrightarrow>
     (\<exists>rx tx. conn_inv sv st0 rx tx (lk_server x) \<and> rx @ lk_up x = lk_sent x \<and> phase_inv rq rp tx x
        \<and> n \<le> length (lk_sent x) + length rx + responded rq rx (lk_server x) + length tx + length (buffer (lk_read x)))"

lemma link_invI:
  "conn_inv sv st0 rx tx (lk_server x) \<Longrightarrow> rx @ lk_up x = lk_sent x \<Longrightarrow> phase_inv rq rp tx x
   \<Longrightarrow> n \<le> length (lk_sent x) + length rx + responded rq rx (lk_server x) + length tx + length (buffer (lk_read x))
   \<Longrightarrow> link_inv sv st0 rq rp n x"
  by (auto simp: link_inv_def)

lemma link_invE:
  assumes "link_inv sv st0 rq rp n x"
  obtains rx tx left where "conn_inv sv st0 rx tx (lk_server x)" "rx @ lk_up x = lk_sent x" "phase_inv rq rp tx x"
    "n \<le> length (lk_sent x) + length rx + responded rq rx (lk_server x) + length tx + length (buffer (lk_read x))"
    "lk_sent x @ left = rq"
proof -
  from assms obtain rx tx where "conn_inv sv st0 rx tx (lk_server x)" "rx @ lk_up x = lk_sent x" "phase_inv rq rp tx x"
    "n \<le> length (lk_sent x) + length rx + responded rq rx (lk_server x) + length tx + length (buffer (lk_read x))"
    by (auto simp: link_inv_def)
  moreover from this(3) have "\<exists>left. lk_sent x @ left = rq" by (auto simp: phase_inv_def split: phase.splits)
  ultimately show ?thesis using that by blast
qed

lemma phase_inv_frame [simp]:
  "phase_inv rq rp tx (x\<lparr>lk_writes := ws\<rparr>) = phase_inv rq rp tx x"
  "phase_inv rq rp tx (x\<lparr>lk_reads := rs\<rparr>) = phase_inv rq rp tx x"
  by (simp_all add: phase_inv_def owed_def split: phase.split)

text \<open>One turn of each loop.\<close>

lemma write_turn:
  assumes "Write (Wrote k) w = (e, out, w')" and "k \<le> length (drop (lastBol w) (buffer w))"
  shows "drop (lastBol w) (buffer w) = out @ drop (lastBol w') (buffer w')"
    "if drop (lastBol w') (buffer w') = [] then e = 0 \<and> w' = empty_buffer else e = EAGAIN"
  using assms append_take_drop_id [of k "drop (lastBol w) (buffer w)"]
  by (auto simp: Write_def Let_def empty_buffer_def add.commute split: if_splits)

lemma send_phase:
  assumes "lk_phase x = Sending" and "phase_inv rq rp tx x" and "rp \<noteq> []" and "k \<le> length (owed x)"
    and "Write (Wrote k) (lk_write x) = (e, out, w)"
  shows "phase_inv rq rp tx (x\<lparr>lk_write := w, lk_phase := after_write e, lk_writes := ws, lk_sent := lk_sent x @ out, lk_up := u\<rparr>)"
  using assms write_turn [OF assms(5) assms(4) [unfolded owed_def]]
  by (cases "drop (lastBol w) (buffer w) = []")
    (auto simp: phase_inv_def owed_def after_write_def empty_buffer_def append_assoc [symmetric] simp del: append_assoc)

lemma receive_phase:
  assumes rp: "split_block False rp = Some (rp, [])" and "lk_phase x = Receiving" and "phase_inv rq rp tx x"
    and "lk_down x = cs @ rest" and "cs \<noteq> []" and "Read (Got cs) (lk_read x) = (e, b)" and "rp = tx @ unsaid"
  shows "phase_inv rq rp tx (x\<lparr>lk_read := b, lk_phase := after_read e, lk_reads := rs, lk_down := rest\<rparr>)"
    "length (buffer b) = length (buffer (lk_read x)) + length cs"
proof -
  let ?b = "buffer (lk_read x)"
  have r: "lk_sent x = rq" "lk_write x = empty_buffer" "lastBol (lk_read x) = 0" "tx = ?b @ cs @ rest"
    using assms(2-4) by (auto simp: phase_inv_def)
  have whole: "rp = ?b @ cs @ rest @ unsaid" using assms(7) r(4) by simp
  then have "split_block False ?b = None" using split_block_prefix [of False ?b "cs @ rest @ unsaid"] rp assms(5) by simp
  note read = Read_split [OF this assms(5)]
  have both: "phase_inv rq rp tx (x\<lparr>lk_read := b, lk_phase := after_read e, lk_reads := rs, lk_down := rest\<rparr>)
    \<and> length (buffer b) = length ?b + length cs"
  proof (cases "rest @ unsaid = []")
    case True
    then have "e = 0" "b = \<lparr>buffer = rp, lastBol = 0\<rparr>" "rest = []" "rp = ?b @ cs" "tx = rp"
      using read assms(6) rp whole r(3,4) by (auto intro: MessageBuffer.equality)
    then show ?thesis using r by (simp add: phase_inv_def after_read_def)
  next
    case False
    then have "split_block False (?b @ cs) = None"
      using split_block_prefix [of False "?b @ cs" "rest @ unsaid"] rp whole by simp
    then have "e = EAGAIN" "b = (lk_read x)\<lparr>buffer := ?b @ cs\<rparr>" using read assms(6) by auto
    then show ?thesis using r whole False by (auto simp: phase_inv_def after_read_def)
  qed
  show "phase_inv rq rp tx (x\<lparr>lk_read := b, lk_phase := after_read e, lk_reads := rs, lk_down := rest\<rparr>)"
    "length (buffer b) = length ?b + length cs" using both by blast+
qed

text \<open>Both kinds of turns: what the client has sent grows by what it puts on its way.\<close>

lemma client_step_phase:
  assumes rp: "split_block False rp = Some (rp, [])" "rp = tx @ unsaid" and inv: "phase_inv rq rp tx x"
    and turn: "client_step x p y"
  shows "phase_inv rq rp tx y" "lk_server y = lk_server x"
    "\<exists>out. lk_sent y = lk_sent x @ out \<and> lk_up y = lk_up x @ out"
    "length (lk_sent x) + length (buffer (lk_read x)) + of_bool p \<le> length (lk_sent y) + length (buffer (lk_read y))"
proof -
  have "rp \<noteq> []" using rp(1) by auto
  have "phase_inv rq rp tx y \<and> lk_server y = lk_server x
    \<and> (\<exists>out. lk_sent y = lk_sent x @ out \<and> lk_up y = lk_up x @ out)
    \<and> length (lk_sent x) + length (buffer (lk_read x)) + of_bool p \<le> length (lk_sent y) + length (buffer (lk_read y))"
    using turn
  proof cases
    case (send k e out w)
    have "phase_inv rq rp tx y"
      unfolding send(2) using send(3-5) inv \<open>rp \<noteq> []\<close> by (intro send_phase) (simp_all add: owed_def)
    then show ?thesis by (cases out) (simp_all add: send(1,2))
  next
    case (send_retry e' e out w)
    then have "y = x\<lparr>lk_writes := lk_writes x @ [WriteErr e']\<rparr>" "p = False"
      by (auto simp: Write_def Let_def after_write_def split: if_splits)
    then show ?thesis using inv by simp
  next
    case (receive cs rest e b)
    note r = receive_phase [OF rp(1) receive(3) inv receive(4-6) rp(2)]
    show ?thesis using r receive(5) unfolding receive(1,2) by (cases cs) simp_all
  next
    case (receive_retry e' e b)
    then have "y = x\<lparr>lk_reads := lk_reads x @ [ReadErr e']\<rparr>" "p = False"
      by (auto simp: Read_def Let_def after_read_def)
    then show ?thesis using inv by simp
  qed
  then show "phase_inv rq rp tx y" "lk_server y = lk_server x"
    "\<exists>out. lk_sent y = lk_sent x @ out \<and> lk_up y = lk_up x @ out"
    "length (lk_sent x) + length (buffer (lk_read x)) + of_bool p \<le> length (lk_sent y) + length (buffer (lk_read y))"
    by blast+
qed

section \<open>One exchange\<close>

text \<open>The request and the reply of an exchange, as blocks on the wire.\<close>

definition exchanges ::
  "('r \<times> bool \<Rightarrow> bytes \<Rightarrow> bytes list \<times> 'r \<times> bool) \<Rightarrow> 'r \<times> bool \<Rightarrow> bytes \<Rightarrow> bytes \<Rightarrow> 'r \<times> bool \<Rightarrow> bool" where
  "exchanges sv st0 rq rp st1 \<longleftrightarrow> split_block False rq = Some (rq, []) \<and> split_block False rp = Some (rp, [])
     \<and> (\<exists>wss. rp = enc_block wss @ [NL] \<and> serve_all sv st0 (nl_lines rq) = (wss, st1))"

lemma said_prefix:
  assumes "exchanges sv st0 rq rp st1" and "conn_inv sv st0 rx tx s" and "rx @ left = rq"
  shows "\<exists>unsaid. rp = tx @ unsaid" and "tx = rp \<Longrightarrow> rx = rq"
proof -
  obtain wss r' c' where ex: "split_block False rq = Some (rq, [])" "rp = enc_block wss @ [NL]"
    "serve_all sv st0 (nl_lines rq) = (wss, r', c')"
    using assms(1) by (cases st1) (auto simp: exchanges_def)
  have "(left \<noteq> [] \<longrightarrow> tx = []) \<and> (left = [] \<longrightarrow> rx = rq \<and> (\<exists>unsaid. rp = tx @ unsaid))"
    using server_before(2) [OF ex(1) assms(2,3)] server_after(3) [OF ex(1) _ ex(3,2)] assms(2,3) by auto
  then show "\<exists>unsaid. rp = tx @ unsaid" "tx = rp \<Longrightarrow> rx = rq" using ex(2) by auto
qed

context resolver_contract
begin

lemma serve_turn_inv:
  assumes ex: "exchanges (serve conn req err strerr) st0 rq rp st1"
    and inv: "link_inv (serve conn req err strerr) st0 rq rp n x"
    and turn: "conn_step strerr vt (lk_server x) l s" "lk_up x = rx_of l @ rest"
  shows "link_inv (serve conn req err strerr) st0 rq rp
    (n + of_bool (GetDirection (lk_server x) = PROCESSING \<or> rx_of l \<noteq> [] \<or> tx_of l \<noteq> []))
    (x\<lparr>lk_server := s, lk_up := rest, lk_down := lk_down x @ tx_of l\<rparr>)"
proof -
  let ?sv = "serve conn req err strerr"
  have rq: "split_block False rq = Some (rq, [])" using ex by (simp add: exchanges_def)
  from inv obtain rx tx left where i: "conn_inv ?sv st0 rx tx (lk_server x)" "rx @ lk_up x = lk_sent x" "phase_inv rq rp tx x"
    "n \<le> length (lk_sent x) + length rx + responded rq rx (lk_server x) + length tx + length (buffer (lk_read x))"
    "lk_sent x @ left = rq" by (rule link_invE)
  have inv': "conn_inv ?sv st0 (rx @ rx_of l) (tx @ tx_of l) s" by (rule conn_step_inv [OF i(1) turn(1)])
  have all: "rx = rq" if "direction (lk_server x) \<noteq> READING"
    using server_before(1) [OF rq i(1), of "lk_up x @ left"] i(2,5) that by (cases "lk_up x @ left = []") auto
  have open_rq: "rx \<noteq> rq" if "rx_of l \<noteq> []" using i(2,5) turn(2) that by auto
  have quiet: "tx_of l = []" if "tx = rp"
    using said_prefix(1) [OF ex inv', of "rest @ left"] i(2,5) turn(2) that by auto
  show ?thesis
  proof (rule link_invI [OF _ _ _ order_trans])
    show "conn_inv ?sv st0 (rx @ rx_of l) (tx @ tx_of l) (lk_server (x\<lparr>lk_server := s, lk_up := rest, lk_down := lk_down x @ tx_of l\<rparr>))"
      using inv' by simp
    show "phase_inv rq rp (tx @ tx_of l) (x\<lparr>lk_server := s, lk_up := rest, lk_down := lk_down x @ tx_of l\<rparr>)"
      using i(3) quiet by (auto simp: phase_inv_def owed_def split: phase.splits)
    show "n + of_bool (GetDirection (lk_server x) = PROCESSING \<or> rx_of l \<noteq> [] \<or> tx_of l \<noteq> [])
      \<le> length (lk_sent x) + length (rx @ rx_of l) + responded rq (rx @ rx_of l) s + length (tx @ tx_of l) + length (buffer (lk_read x))"
      using i(4) conn_step_gain [OF turn(1), of rx rq, OF all open_rq] by simp
  qed (use i(2) turn(2) in auto)
qed

lemma link_step_inv:
  assumes ex: "exchanges (serve conn req err strerr) st0 rq rp st1"
    and inv: "link_inv (serve conn req err strerr) st0 rq rp n x" and turn: "link_step strerr vt x p y"
  shows "link_inv (serve conn req err strerr) st0 rq rp (n + of_bool p) y"
  using turn
proof cases
  case client_turn
  from inv obtain rx tx left where i: "conn_inv (serve conn req err strerr) st0 rx tx (lk_server x)" "rx @ lk_up x = lk_sent x"
    "phase_inv rq rp tx x" "n \<le> length (lk_sent x) + length rx + responded rq rx (lk_server x) + length tx + length (buffer (lk_read x))"
    "lk_sent x @ left = rq" by (rule link_invE)
  obtain unsaid where "rp = tx @ unsaid" using said_prefix(1) [OF ex i(1), of "lk_up x @ left"] i(2,5) by auto
  moreover have "split_block False rp = Some (rp, [])" using ex by (simp add: exchanges_def)
  ultimately have c: "phase_inv rq rp tx y" "lk_server y = lk_server x"
    "\<exists>out. lk_sent y = lk_sent x @ out \<and> lk_up y = lk_up x @ out"
    "length (lk_sent x) + length (buffer (lk_read x)) + of_bool p \<le> length (lk_sent y) + length (buffer (lk_read y))"
    using client_step_phase [OF _ _ i(3) client_turn] by blast+
  have "rx @ lk_up y = lk_sent y" using c(3) i(2) by (metis append_assoc)
  then show ?thesis using c i(1,4) by (intro link_invI [of _ _ rx tx]) simp_all
next
  case (serve_turn l s rest)
  then show ?thesis using serve_turn_inv [OF ex inv serve_turn(3,4)] by simp
qed

lemma link_run_inv:
  assumes "exchanges (serve conn req err strerr) (resolver s, is_connected s) (buffer (cl_write c) @ [NL]) rp st1"
    and "awaiting s" and "link_run strerr vt (link_start c s) n x"
  shows "link_inv (serve conn req err strerr) (resolver s, is_connected s) (buffer (cl_write c) @ [NL]) rp n x"
  using assms(3)
proof (induction rule: link_run.induct)
  case start
  show ?case
    using conn_inv_start [OF assms(2), of "serve conn req err strerr"]
    by (intro link_invI [of _ _ "[]" "[]"])
      (simp_all add: link_start_def phase_inv_def owed_def PrepareToWrite_def PrepareToRead_def empty_buffer_def)
qed (rule link_step_inv [OF assms(1)])

text \<open>The state at the end.\<close>

lemma link_returned:
  assumes ex: "exchanges (serve conn req err strerr) st0 rq rp st1"
    and inv: "link_inv (serve conn req err strerr) st0 rq rp n x" and "lk_phase x = Returned e"
  shows "e = 0" "lk_sent x = rq" "lk_write x = empty_buffer" "lk_read x = \<lparr>buffer = rp, lastBol = 0\<rparr>"
    "awaiting (lk_server x)" "(resolver (lk_server x), is_connected (lk_server x)) = st1"
proof -
  let ?sv = "serve conn req err strerr"
  from inv obtain rx tx left where i: "conn_inv ?sv st0 rx tx (lk_server x)" "rx @ lk_up x = lk_sent x" "phase_inv rq rp tx x"
    "n \<le> length (lk_sent x) + length rx + responded rq rx (lk_server x) + length tx + length (buffer (lk_read x))"
    "lk_sent x @ left = rq" by (rule link_invE)
  then show *: "e = 0" "lk_sent x = rq" "lk_write x = empty_buffer" "lk_read x = \<lparr>buffer = rp, lastBol = 0\<rparr>"
    using assms(3) by (simp_all add: phase_inv_def)
  have "tx = rp" using i(3) assms(3) by (simp add: phase_inv_def)
  moreover have "rx = rq" using said_prefix(2) [OF ex i(1), of "lk_up x @ left"] i(2,5) calculation
    by (simp add: append_assoc [symmetric] del: append_assoc)
  moreover obtain wss where "rp = enc_block wss @ [NL]" "serve_all ?sv st0 (nl_lines rq) = (wss, fst st1, snd st1)"
    "split_block False rq = Some (rq, [])" using ex by (auto simp: exchanges_def)
  ultimately show "awaiting (lk_server x)" "(resolver (lk_server x), is_connected (lk_server x)) = st1"
    using server_after [of rq ?sv st0 tx "lk_server x" wss "fst st1" "snd st1" rp] i(1) by (auto simp: prod_eq_iff)
qed

text \<open>How much can happen at most.\<close>

lemma link_bound:
  assumes ex: "exchanges (serve conn req err strerr) st0 rq rp st1"
    and inv: "link_inv (serve conn req err strerr) st0 rq rp n x"
  shows "n \<le> 2 * length rq + 2 * length rp + 1"
proof -
  let ?sv = "serve conn req err strerr"
  from inv obtain rx tx left where i: "conn_inv ?sv st0 rx tx (lk_server x)" "rx @ lk_up x = lk_sent x" "phase_inv rq rp tx x"
    "n \<le> length (lk_sent x) + length rx + responded rq rx (lk_server x) + length tx + length (buffer (lk_read x))"
    "lk_sent x @ left = rq" by (rule link_invE)
  obtain unsaid where "rp = tx @ unsaid" using said_prefix(1) [OF ex i(1), of "lk_up x @ left"] i(2,5) by auto
  then have "length tx \<le> length rp" "length (buffer (lk_read x)) \<le> length rp"
    using i(3) by (auto simp: phase_inv_def empty_buffer_def split: phase.splits)
  moreover have "length (lk_sent x) \<le> length rq" "length rx \<le> length rq"
    using i(5) by (auto simp: i(2) [symmetric])
  moreover have "responded rq rx (lk_server x) \<le> 1" by (simp add: responded_def)
  ultimately show ?thesis using i(4) by linarith
qed

section \<open>Progress\<close>

text \<open>A whole block that was written by a client is served, by the contract.\<close>

lemma block_served:
  assumes "ls \<noteq> []" and "list_all plain_line ls" and "sv_read s = \<lparr>buffer = text_block ls @ [NL], lastBol = 0\<rparr>"
    and "buffer (sv_write s) = []"
    and "serve_all (serve conn req err strerr) (resolver s, is_connected s) ls = (wss, r', c')"
  shows "\<exists>s'. ProcessRequests strerr vt s = Inr s'" "[] \<notin> set wss" "length wss = length ls"
    "serve_all (serve conn req err strerr) (resolver s, is_connected s) (nl_lines (text_block ls @ [NL])) = (wss, r', c')"
proof -
  have rem: "left_lines ls (sv_read s)" using assms(1-3) by (auto simp: left_lines_def)
  have lines: "lines_of (sv_read s) = wire ls" by (rule left_lines_of [OF rem])
  have served: "serve_all (serve conn req err strerr) (resolver s, is_connected s) (wire ls) = (wss, r', c')"
    using assms(5) by (simp add: serve_all_wire [OF assms(2)])
  have "holds_block [] (sv_write s)" using assms(4) by (simp add: holds_block_def)
  then show "\<exists>s'. ProcessRequests strerr vt s = Inr s'" "[] \<notin> set wss" "length wss = length ls"
    using ProcessRequests_answers [OF left_lines_readable [OF rem] first_line_fine [OF rem assms(1)], of "[]" strerr wss r' c'] served
    by (auto simp: abstract_replies_def lines holds_block_def)
  show "serve_all (serve conn req err strerr) (resolver s, is_connected s) (nl_lines (text_block ls @ [NL])) = (wss, r', c')"
    using served lines assms(3) by (simp add: lines_of_def)
qed

lemma block_exchanges:
  assumes "ls \<noteq> []" and "list_all plain_line ls"
    and "serve_all (serve conn req err strerr) (r, b) ls = (wss, r', c')"
  shows "exchanges (serve conn req err strerr) (r, b) (text_block ls @ [NL]) (enc_block wss @ [NL]) (r', c')"
proof -
  let ?s = "(Server_new r 0 0)\<lparr>sv_read := \<lparr>buffer = text_block ls @ [NL], lastBol = 0\<rparr>, is_connected := b\<rparr>"
  have "buffer (sv_write (Server_new r 0 0)) = []" using new_awaiting(1) [of r 0 0] by (simp add: awaiting_def)
  then have "[] \<notin> set wss" "length wss = length ls"
    "serve_all (serve conn req err strerr) (r, b) (nl_lines (text_block ls @ [NL])) = (wss, r', c')"
    using block_served [OF assms(1,2), of ?s strerr wss r' c'] assms(3) by simp_all
  then show ?thesis using assms(1,2) by (cases wss) (auto simp: exchanges_def split_block_text split_block_enc)
qed

text \<open>The server can take one more byte of the request, or go on with its reply.\<close>

lemma server_takes:
  assumes ls: "ls \<noteq> []" "list_all plain_line ls" and rq: "rq = text_block ls @ [NL]" and inv: "conn_inv sv st0 rx tx s"
    and left: "rx @ ch # left = rq"
  shows "\<exists>s'. conn_step strerr vt s (Rx [ch]) s'"
proof -
  have split_rq: "split_block False rq = Some (rq, [])" using ls rq by (simp add: split_block_text)
  note s = server_before [OF split_rq inv left, simplified]
  have reading: "GetDirection s = READING" using s(1) by (simp add: GetDirection_def)
  have "split_block False rx = None" using split_block_prefix [of False rx "ch # left"] split_rq left by simp
  then have read: "Read (Got [ch]) (sv_read s) = (case split_block False (rx @ [ch]) of
      None \<Rightarrow> (EAGAIN, (sv_read s)\<lparr>buffer := rx @ [ch]\<rparr>)
    | Some (blk, rest) \<Rightarrow> (if rest = [] then 0 else EINVAL, (sv_read s)\<lparr>buffer := blk\<rparr>))"
    using Read_split [of "sv_read s" "[ch]"] s(3) by (auto split: option.split)
  show ?thesis
  proof (cases "left = []")
    case True
    let ?s = "s\<lparr>sv_read := \<lparr>buffer = rq, lastBol = 0\<rparr>\<rparr>"
    have "Server_Read (Got [ch]) s = (0, ?s)" using read split_rq left s(3) True by (simp add: Server_Read_def)
    moreover obtain wss r' c' where "serve_all (serve conn req err strerr) (resolver ?s, is_connected ?s) ls = (wss, r', c')"
      by (metis prod_cases3)
    then obtain s' where "ProcessRequests strerr vt ?s = Inr s'"
      using block_served(1) [OF ls, of ?s strerr wss r' c'] s(4) rq by auto
    ultimately show ?thesis using reading by (blast intro: read_block)
  next
    case False
    then have "split_block False (rx @ [ch]) = None" using split_block_prefix [of False "rx @ [ch]" left] split_rq left by simp
    then have "Server_Read (Got [ch]) s = (EAGAIN, s\<lparr>sv_read := (sv_read s)\<lparr>buffer := rx @ [ch]\<rparr>\<rparr>)"
      using read by (simp add: Server_Read_def)
    then show ?thesis using reading by (blast intro: read_more)
  qed
qed

end

text \<open>A server that is writing can get rid of one byte.\<close>

lemma server_says:
  assumes "direction s = WRITING" and "drop (lastBol (sv_write s)) (buffer (sv_write s)) \<noteq> []"
  shows "\<exists>out s'. out \<noteq> [] \<and> conn_step strerr vt s (Tx out) s'"
proof -
  let ?w = "sv_write s"
  obtain e out w where w: "Write (Wrote 1) ?w = (e, out, w)" by (cases "Write (Wrote 1) ?w") auto
  have k: "1 \<le> length (drop (lastBol ?w) (buffer ?w))" using assms(2) by (cases "drop (lastBol ?w) (buffer ?w)") auto
  have out: "out \<noteq> []" "e = 0 \<or> e = EAGAIN"
    using w assms(2) by (auto simp: Write_def Let_def split: if_splits)
  have s: "Server_Write (Wrote 1) s = (e, out, s\<lparr>sv_write := w\<rparr>)" "GetDirection s = WRITING"
    "1 \<le> length (buffer ?w) - lastBol ?w"
    using w assms(1) k by (simp_all add: Server_Write_def GetDirection_def)
  show ?thesis using out s write_more [of s 1 out] write_done [of s 1 out] by metis
qed

text \<open>
  Until the exchange has returned, some step gets something done: one byte sent, received,
  taken or said, or the turn to the reply.
\<close>

lemma send_byte: "lk_phase x = Sending \<Longrightarrow> owed x \<noteq> [] \<Longrightarrow> \<exists>y. link_step strerr vt x True y"
proof -
  assume x: "lk_phase x = Sending" "owed x \<noteq> []"
  obtain e out w where w: "Write (Wrote 1) (lk_write x) = (e, out, w)" by (cases "Write (Wrote 1) (lk_write x)") auto
  have "1 \<le> length (owed x)" using x(2) by (cases "owed x") auto
  then have k: "1 \<le> length (buffer (lk_write x)) - lastBol (lk_write x)" by (simp add: owed_def)
  have "out \<noteq> []" using w x(2) by (auto simp: Write_def Let_def owed_def split: if_splits)
  then show ?thesis using client_turn [OF send [OF x(1) k w], of strerr vt] by auto
qed

lemma receive_byte: "lk_phase x = Receiving \<Longrightarrow> lk_down x \<noteq> [] \<Longrightarrow> \<exists>y. link_step strerr vt x True y"
proof -
  assume x: "lk_phase x = Receiving" "lk_down x \<noteq> []"
  obtain ch rest where down: "lk_down x = [ch] @ rest" using x(2) by (cases "lk_down x") auto
  obtain e b where "Read (Got [ch]) (lk_read x) = (e, b)" by (cases "Read (Got [ch]) (lk_read x)") auto
  from client_turn [OF receive [OF x(1) down _ this], of strerr vt] show ?thesis by auto
qed

lemma serve_active:
  assumes "conn_step strerr vt (lk_server x) l s" and "lk_up x = rx_of l @ rest"
    and "GetDirection (lk_server x) = PROCESSING \<or> rx_of l \<noteq> [] \<or> tx_of l \<noteq> []"
  shows "\<exists>y. link_step strerr vt x True y"
  using serve_turn [OF assms(1,2)] assms(3) by auto

context resolver_contract
begin

lemma link_progress:
  assumes ls: "ls \<noteq> []" "list_all plain_line ls" and rq: "rq = text_block ls @ [NL]"
    and ex: "exchanges (serve conn req err strerr) st0 rq rp st1"
    and inv: "link_inv (serve conn req err strerr) st0 rq rp n x" and going: "\<And>e. lk_phase x \<noteq> Returned e"
  shows "\<exists>y. link_step strerr vt x True y"
proof -
  let ?sv = "serve conn req err strerr"
  from inv obtain rx tx left where i: "conn_inv ?sv st0 rx tx (lk_server x)" "rx @ lk_up x = lk_sent x" "phase_inv rq rp tx x"
    "n \<le> length (lk_sent x) + length rx + responded rq rx (lk_server x) + length tx + length (buffer (lk_read x))"
    "lk_sent x @ left = rq" by (rule link_invE)
  show ?thesis
  proof (cases "lk_phase x")
    case Sending
    then show ?thesis using i(3) by (intro send_byte) (simp_all add: phase_inv_def)
  next
    case Receiving
    then have r: "lk_sent x = rq" "tx = buffer (lk_read x) @ lk_down x" "buffer (lk_read x) \<noteq> rp"
      using i(3) by (simp_all add: phase_inv_def)
    consider "lk_down x \<noteq> []" | ch rest where "lk_up x = ch # rest" | "lk_down x = []" "lk_up x = []"
      by (meson neq_Nil_conv)
    then show ?thesis
    proof cases
      case 1
      then show ?thesis by (rule receive_byte [OF Receiving])
    next
      case (2 ch rest)
      then obtain s where "conn_step strerr vt (lk_server x) (Rx [ch]) s"
        using server_takes [OF ls rq i(1), of ch rest] i(2) r(1) by auto
      then show ?thesis by (rule serve_active [where rest = rest]) (simp_all add: 2)
    next
      case 3
      obtain wss where wss: "split_block False rq = Some (rq, [])" "rp = enc_block wss @ [NL]"
        "serve_all ?sv st0 (nl_lines rq) = (wss, fst st1, snd st1)" using ex by (auto simp: exchanges_def)
      have "rx = rq" using i(2) r(1) 3 by simp
      then have said: "direction (lk_server x) = READING \<longleftrightarrow> tx = rp"
        "direction (lk_server x) = WRITING \<Longrightarrow> drop (lastBol (sv_write (lk_server x))) (buffer (sv_write (lk_server x))) \<noteq> []"
        using server_after(4,6) [OF wss(1) _ wss(3,2)] i(1) by blast+
      show ?thesis
      proof (cases "direction (lk_server x)")
        case PROCESSING
        then have p: "GetDirection (lk_server x) = PROCESSING" by (simp add: GetDirection_def)
        show ?thesis by (rule serve_active [OF respond [OF p], where rest = "[]"]) (simp_all add: 3 p)
      next
        case WRITING
        then obtain out s where "out \<noteq> []" "conn_step strerr vt (lk_server x) (Tx out) s"
          using server_says [of "lk_server x" strerr vt] said(2) by blast
        then show ?thesis using 3 by (intro serve_active [where rest = "[]"]) auto
      qed (use said(1) r(2,3) 3 in simp)
    qed
  qed (use going in simp)
qed

end

end
