(* ===== verification/LinkCalls.thy ===== *)
theory LinkCalls
  imports LinkSpec
begin

text \<open>
  Requests over a link: what the client makes of the answers of a complete run, for a corked
  batch and for single requests, that every run can be completed, and sessions of any number
  of requests.
\<close>

section \<open>The client after an exchange\<close>

text \<open>\<open>Uncork\<close> on the answers of an exchange that brought the reply \<open>wss\<close>, and of one that failed.\<close>

lemma uncork_received:
  assumes "CommunicateWithServer strerr vt (with_answers x c) = Inr (0, after_exchange x c)"
    and "remaining wss (cl_read (after_exchange x c))" and "cl_write (after_exchange x c) = empty_buffer"
    and "queued reqs c" and "reqs \<noteq> []" and "RC_HWM \<notin> snd ` set reqs" and "length wss = length reqs"
  shows "\<exists>d. Uncork strerr vt (with_answers x c) = Inr (packets wss (map snd reqs), d) \<and> idle d \<and> channel d = channel c
    \<and> cl_connected d = (cl_connected c \<or> connects (packets wss (map snd reqs)))"
proof -
  obtain m where m: "corked c = m # map (\<lambda>rc. cork_char (rc_word rc)) (map snd reqs)"
    using assms(4) by (auto simp: queued_def)
  let ?d = "after_exchange x c"
  have "uncork_loop ?d (map (\<lambda>rc. cork_char (rc_word rc)) (map snd reqs)) = Inr (packets wss (map snd reqs),
      ?d\<lparr>cl_read := at_end (cl_read ?d), cl_connected := (cl_connected ?d \<or> connects (packets wss (map snd reqs)))\<rparr>)"
    using assms(6,7) by (intro uncork_loop_remaining [OF assms(2)]) auto
  then show ?thesis
    using assms(1,3,5) m by (simp add: Uncork_def idle_def with_answers_def after_exchange_def empty_buffer_def)
qed

lemma uncork_failed:
  assumes "CommunicateWithServer strerr vt (with_answers x c) = Inr (e, after_exchange x c)" and "e \<noteq> 0"
    and "cl_write (after_exchange x c) = empty_buffer" and "queued reqs c" and "reqs \<noteq> []"
  shows "\<exists>d. Uncork strerr vt (with_answers x c) = Inr ([CommunicationError strerr e], d) \<and> idle d \<and> channel d = channel c
    \<and> cl_connected d = cl_connected c"
  using assms by (auto simp: Uncork_def queued_def idle_def with_answers_def after_exchange_def empty_buffer_def)

section \<open>One exchange\<close>

context resolver_contract
begin

lemma block_link:
  assumes "holds_lines ls (cl_write c)" and "ls \<noteq> []" and "awaiting s"
    and "serve_all (serve conn req err strerr) (resolver s, is_connected s) ls = (wss, r', c')"
    and "link_run strerr vt (link_start c s) n x"
  shows "exchanges (serve conn req err strerr) (resolver s, is_connected s) (text_block ls @ [NL]) (enc_block wss @ [NL]) (r', c')"
    "link_inv (serve conn req err strerr) (resolver s, is_connected s) (text_block ls @ [NL]) (enc_block wss @ [NL]) n x"
proof -
  have ls: "list_all plain_line ls" "buffer (cl_write c) = text_block ls" using assms(1) by (simp_all add: holds_lines_def)
  show ex: "exchanges (serve conn req err strerr) (resolver s, is_connected s) (text_block ls @ [NL]) (enc_block wss @ [NL]) (r', c')"
    by (rule block_exchanges [OF assms(2) ls(1) assms(4)])
  show "link_inv (serve conn req err strerr) (resolver s, is_connected s) (text_block ls @ [NL]) (enc_block wss @ [NL]) n x"
    using link_run_inv [of strerr s c "enc_block wss @ [NL]" "(r', c')" n x] ex assms(3,5) ls(2) by simp
qed

lemma block_wss:
  assumes "ls \<noteq> []" and "list_all plain_line ls"
    and "serve_all (serve conn req err strerr) (r, b) ls = (wss, r', c')"
  shows "[] \<notin> set wss" "length wss = length ls"
proof -
  let ?s = "(Server_new r 0 0)\<lparr>sv_read := \<lparr>buffer = text_block ls @ [NL], lastBol = 0\<rparr>, is_connected := b\<rparr>"
  have "buffer (sv_write (Server_new r 0 0)) = []" using new_awaiting(1) [of r 0 0] by (simp add: awaiting_def)
  then show "[] \<notin> set wss" "length wss = length ls"
    using block_served [OF assms(1,2), of ?s strerr wss r' c'] assms(3) by simp_all
qed

text \<open>
  Every run can be completed: as long as it has not returned there is a step that counts, and
  the count is bounded.
\<close>

lemma run_completes:
  assumes held: "holds_lines ls (cl_write c)" "ls \<noteq> []" and at: "awaiting s"
    and run: "link_run strerr vt (link_start c s) n x"
  shows "\<exists>m y e. link_run strerr vt (link_start c s) m y \<and> lk_phase y = Returned e"
proof -
  obtain wss r' c' where served:
    "serve_all (serve conn req err strerr) (resolver s, is_connected s) ls = (wss, r', c')"
    by (metis prod_cases3)
  define bound where "bound = 2 * length (text_block ls @ [NL]) + 2 * length (enc_block wss @ [NL]) + 1"
  have ls: "list_all plain_line ls" using held(1) by (simp add: holds_lines_def)
  show ?thesis
    using run
  proof (induction "bound - n" arbitrary: n x rule: less_induct)
    case less
    note link = block_link [OF held at served less.prems]
    show ?case
    proof (cases "\<exists>e. lk_phase x = Returned e")
      case False
      then obtain y where y: "link_step strerr vt x True y"
        using link_progress [OF held(2) ls refl link] by blast
      have run': "link_run strerr vt (link_start c s) (Suc n) y" using link_run.step [OF less.prems y] by simp
      have "Suc n \<le> bound" using link_bound [OF block_link [OF held at served run']] by (simp add: bound_def)
      then show ?thesis using less.hyps [OF _ run'] by simp
    qed (use less.prems in blast)
  qed
qed

text \<open>The client after a complete run holds exactly the reply.\<close>

lemma block_returned:
  assumes held: "holds_lines ls (cl_write c)" "ls \<noteq> []" and at: "awaiting s"
    and served: "serve_all (serve conn req err strerr) (resolver s, is_connected s) ls = (wss, r', c')"
    and run: "link_run strerr vt (link_start c s) n x" and ret: "lk_phase x = Returned e" and fds: "channel c = Fds f t"
  shows "CommunicateWithServer strerr vt' (with_answers x c) = Inr (0, after_exchange x c)"
    "remaining wss (cl_read (after_exchange x c))" "cl_write (after_exchange x c) = empty_buffer"
    "awaiting (lk_server x)" "resolver (lk_server x) = r'" "is_connected (lk_server x) = c'" "length wss = length ls"
proof -
  note link = block_link [OF held at served run]
  note r = link_returned [OF link ret]
  have wss: "[] \<notin> set wss" "length wss = length ls"
    using block_wss [OF held(2) _ served] held(1) by (simp_all add: holds_lines_def)
  show "CommunicateWithServer strerr vt' (with_answers x c) = Inr (0, after_exchange x c)"
    using run_communicates [OF run ret fds] r(1) by simp
  have "wss \<noteq> []" using wss(2) held(2) by auto
  then show "remaining wss (cl_read (after_exchange x c))"
    using wss(1) r(4) by (auto simp: remaining_def after_exchange_def)
  show "cl_write (after_exchange x c) = empty_buffer" using r(3) by (simp add: after_exchange_def)
  show "awaiting (lk_server x)" "resolver (lk_server x) = r'" "is_connected (lk_server x) = c'" using r(5,6) by auto
  show "length wss = length ls" by (rule wss(2))
qed

lemma uncork_link:
  assumes "channel c = Fds f t" and "queued reqs c" and "reqs \<noteq> []" and "RC_HWM \<notin> snd ` set reqs" and "awaiting s"
    and "serve_all (serve conn req err strerr) (resolver s, is_connected s) (map fst reqs) = (wss, r', c')"
    and "link_run strerr vt (link_start c s) n x" and "lk_phase x = Returned e"
  shows "\<exists>d. Uncork strerr vt' (with_answers x c) = Inr (packets wss (map snd reqs), d) \<and> idle d \<and> channel d = channel c"
proof -
  have held: "holds_lines (map fst reqs) (cl_write c)" using assms(2) by (auto simp: queued_def)
  have some: "map fst reqs \<noteq> []" using assms(3) by simp
  note r = block_returned [OF held some assms(5,6,7,8,1)]
  have "length wss = length reqs" using r(7) by simp
  from uncork_received [OF r(1-3) assms(2-4) this] show ?thesis by blast
qed

end

section \<open>Sessions\<close>

text \<open>
  One request over a link, and a sequence of them: the message is put, some interleaving runs
  to its end, and the client makes what it can of the answers it got on the way.
\<close>

inductive link_call ::
  "(int \<Rightarrow> bytes) \<Rightarrow> 'r Resolver_vt \<Rightarrow> call \<Rightarrow> 'r Client \<Rightarrow> 'r Server \<Rightarrow> Packet \<Rightarrow> 'r Client \<Rightarrow> 'r Server \<Rightarrow> bool"
  for strerr vt where
  call: "link_run strerr vt (link_start (c\<lparr>cl_write := put_call q (cl_write c)\<rparr>) s) n x \<Longrightarrow> lk_phase x = Returned e
    \<Longrightarrow> make_call strerr vt q (with_answers x c) = Inr (p, d) \<Longrightarrow> link_call strerr vt q c s p d (lk_server x)"

inductive link_calls ::
  "(int \<Rightarrow> bytes) \<Rightarrow> 'r Resolver_vt \<Rightarrow> call list \<Rightarrow> 'r Client \<Rightarrow> 'r Server \<Rightarrow> Packet list \<Rightarrow> 'r Client \<Rightarrow> 'r Server \<Rightarrow> bool"
  for strerr vt where
  none: "link_calls strerr vt [] c s [] c s"
| some: "link_call strerr vt q c s p c1 s1 \<Longrightarrow> link_calls strerr vt qs c1 s1 ps d s'
    \<Longrightarrow> link_calls strerr vt (q # qs) c s (p # ps) d s'"

context resolver_contract
begin

lemma link_call_packet:
  assumes "link_call strerr vt q c s p d s'" and "channel c = Fds f t" and "idle c" and "awaiting s" and "one_line q"
    and "serve conn req err strerr (resolver s, is_connected s) (call_line q) = (vs, r', c')"
  shows "p = reply_packet (call_code q) False (enc_line vs)" "channel d = channel c" "idle d" "awaiting s'"
    "resolver s' = r'" "is_connected s' = c'" "cl_connected d = (cl_connected c \<or> GetCode p = PC_CONNECT)"
proof -
  let ?c = "c\<lparr>cl_write := put_call q (cl_write c)\<rparr>"
  obtain n x e where run: "link_run strerr vt (link_start ?c s) n x" "lk_phase x = Returned e"
    "make_call strerr vt q (with_answers x c) = Inr (p, d)" "s' = lk_server x"
    using assms(1) by cases auto
  have held: "holds_lines [call_line q] (cl_write ?c)"
    using put_call_holds [of "[]" "cl_write c" q] assms(3,5) by (simp add: idle_def)
  have served: "serve_all (serve conn req err strerr) (resolver s, is_connected s) [call_line q] = ([vs], r', c')"
    using assms(6) by simp
  have fds: "channel ?c = Fds f t" using assms(2) by simp
  note r = block_returned [OF held list.distinct(2) assms(4) served run(1,2) fds]
  have "make_call strerr vt q (with_answers x c) = MaybeRequest strerr vt (with_answers x ?c) (rc_word (call_code q))"
    by (simp only: make_call_puts with_answers_put)
  also have "\<dots> = ProcessResponse (after_exchange x ?c) (rc_word (call_code q)) True"
    using r(1) [of vt] assms(3) by (simp add: MaybeRequest_def IsCorked_def with_answers_def idle_def)
  also have "\<dots> = Inr (reply_packet (call_code q) False (enc_line vs), (after_exchange x ?c)\<lparr>cl_read := skip_line (cl_read (after_exchange x ?c)),
      cl_connected := (cl_connected c \<or> GetCode (reply_packet (call_code q) False (enc_line vs)) = PC_CONNECT)\<rparr>)"
    using ProcessResponse_remaining [OF r(2), of "call_code q" True] fds by (simp add: after_exchange_def)
  finally have *: "p = reply_packet (call_code q) False (enc_line vs)"
    "d = (after_exchange x ?c)\<lparr>cl_read := skip_line (cl_read (after_exchange x ?c)),
      cl_connected := (cl_connected c \<or> GetCode (reply_packet (call_code q) False (enc_line vs)) = PC_CONNECT)\<rparr>"
    using run(3) by auto
  then show "p = reply_packet (call_code q) False (enc_line vs)" "channel d = channel c" "idle d" "awaiting s'"
    "resolver s' = r'" "is_connected s' = c'" "cl_connected d = (cl_connected c \<or> GetCode p = PC_CONNECT)"
    using r(3-6) fds assms(3) run(4) by (simp_all add: after_exchange_def idle_def empty_buffer_def)
qed

lemma link_calls_packets:
  assumes "link_calls strerr vt qs c s ps d s'" and "channel c = Fds f t" and "idle c" and "awaiting s" and "list_all one_line qs"
    and "serve_all (serve conn req err strerr) (resolver s, is_connected s) (call_lines qs) = (wss, r', c')"
  shows "ps = packets wss (map call_code qs) \<and> channel d = channel c \<and> idle d \<and> awaiting s' \<and> resolver s' = r'
    \<and> is_connected s' = c' \<and> cl_connected d = (cl_connected c \<or> connects ps)"
  using assms
proof (induction arbitrary: wss rule: link_calls.induct)
  case (none c s)
  then show ?case by (auto simp: packets_def)
next
  case (some q c s p c1 s1 qs ps d s')
  obtain vs r1 b1 where one: "serve conn req err strerr (resolver s, is_connected s) (call_line q) = (vs, r1, b1)"
    by (metis prod_cases3)
  obtain vss where rest: "serve_all (serve conn req err strerr) (r1, b1) (call_lines qs) = (vss, r', c')" "wss = vs # vss"
    using some.prems(5) one by (auto split: prod.splits simp del: serve.simps)
  have good: "one_line q" "list_all one_line qs" using some.prems(4) by simp_all
  note c = link_call_packet [OF some.hyps(1) some.prems(1-3) good(1) one]
  have "channel c1 = Fds f t" using c(2) some.prems(1) by simp
  from some.IH [OF this c(3,4) good(2), of vss] show ?case using rest c some.prems(1) by auto
qed

text \<open>Every session can take place.\<close>

lemma link_call_exists:
  assumes "channel c = Fds f t" and "idle c" and "awaiting s" and "one_line q"
  shows "\<exists>p d s'. link_call strerr vt q c s p d s'"
proof -
  let ?c = "c\<lparr>cl_write := put_call q (cl_write c)\<rparr>"
  have held: "holds_lines [call_line q] (cl_write ?c)"
    using put_call_holds [of "[]" "cl_write c" q] assms(2,4) by (simp add: idle_def)
  obtain n x e where run: "link_run strerr vt (link_start ?c s) n x" "lk_phase x = Returned e"
    using run_completes [OF held list.distinct(2) assms(3) link_run.start] by blast
  obtain wss r' c' where served: "serve_all (serve conn req err strerr) (resolver s, is_connected s) [call_line q]
      = (wss, r', c')" by (metis prod_cases3)
  have fds: "channel ?c = Fds f t" using assms(1) by simp
  note r = block_returned [OF held list.distinct(2) assms(3) served run fds]
  obtain vs where "wss = [vs]" using r(7) by (cases wss) auto
  then have "make_call strerr vt q (with_answers x c) = ProcessResponse (after_exchange x ?c) (rc_word (call_code q)) True"
    using r(1) [of vt] assms(2) unfolding make_call_puts with_answers_put [symmetric]
    by (simp add: MaybeRequest_def IsCorked_def idle_def with_answers_def)
  then show ?thesis
    using link_call.call [OF run] ProcessResponse_remaining [OF r(2) [unfolded \<open>wss = [vs]\<close>], of "call_code q" True] by auto
qed

lemma link_calls_exist:
  assumes "channel c = Fds f t" and "idle c" and "awaiting s" and "list_all one_line qs"
  shows "\<exists>ps d s'. link_calls strerr vt qs c s ps d s'"
  using assms
proof (induction qs arbitrary: c s)
  case (Cons q qs)
  obtain p c1 s1 where one: "link_call strerr vt q c s p c1 s1" using link_call_exists [OF Cons.prems(1-3)] Cons.prems(4) by force
  obtain vs r' b' where "serve conn req err strerr (resolver s, is_connected s) (call_line q) = (vs, r', b')"
    by (metis prod_cases3)
  from link_call_packet [OF one Cons.prems(1-3) _ this] Cons.prems(1,4)
  obtain ps d s' where "link_calls strerr vt qs c1 s1 ps d s'" using Cons.IH [of c1 s1] by auto
  then show ?case using one by (blast intro: link_calls.some)
qed (blast intro: link_calls.none)

end

end
