(* ===== verification/LinkFaults.thy ===== *)
theory LinkFaults
  imports LinkCalls
begin

text \<open>
  A client and a server whose connection breaks: at any moment a call of either side may fail
  with a hard error or report the end of the stream. The runs and the invariant extend those
  of \<open>Link\<close> and \<open>LinkSpec\<close>; the result is what the client and the server are left with.
\<close>

section \<open>Failing calls\<close>

text \<open>
  The errors that end the loops, and the answers of \<open>read(2)\<close> that do. Bytes that never
  arrive just stay in their channel.
\<close>

definition hard :: "int \<Rightarrow> bool" where
  "hard e \<longleftrightarrow> e \<noteq> 0 \<and> e \<noteq> EAGAIN \<and> e \<noteq> EINTR"

fun broken_read :: "read_ret \<Rightarrow> bool" where
  "broken_read (ReadErr e) = hard e"
| "broken_read (Got cs) = (cs = [])"

text \<open>
  The flag of a state says that the server has met such an error: the loop around it has
  been left, so it takes no more steps. The client's loops return by themselves.
\<close>

inductive fault_step :: "(int \<Rightarrow> bytes) \<Rightarrow> 'r Resolver_vt \<Rightarrow> 'r link \<times> bool \<Rightarrow> 'r link \<times> bool \<Rightarrow> bool"
  for strerr vt where
  whole: "link_step strerr vt x p y \<Longrightarrow> fault_step strerr vt (x, False) (y, False)"
| alone: "client_step x p y \<Longrightarrow> fault_step strerr vt (x, True) (y, True)"
| send_fails: "lk_phase x = Sending \<Longrightarrow> hard err \<Longrightarrow> Write (WriteErr err) (lk_write x) = (e, out, w)
    \<Longrightarrow> fault_step strerr vt (x, g) (x\<lparr>lk_write := w, lk_phase := after_write e,
          lk_writes := lk_writes x @ [WriteErr err], lk_sent := lk_sent x @ out, lk_up := lk_up x @ out\<rparr>, g)"
| receive_fails: "lk_phase x = Receiving \<Longrightarrow> broken_read r \<Longrightarrow> Read r (lk_read x) = (e, b)
    \<Longrightarrow> fault_step strerr vt (x, g) (x\<lparr>lk_read := b, lk_phase := after_read e, lk_reads := lk_reads x @ [r]\<rparr>, g)"
| request_fails: "GetDirection (lk_server x) = READING \<Longrightarrow> broken_read r \<Longrightarrow> Server_Read r (lk_server x) = (e, s)
    \<Longrightarrow> fault_step strerr vt (x, False) (x\<lparr>lk_server := s\<rparr>, True)"
| reply_fails: "GetDirection (lk_server x) = WRITING \<Longrightarrow> hard err \<Longrightarrow> Server_Write (WriteErr err) (lk_server x) = (e, out, s)
    \<Longrightarrow> fault_step strerr vt (x, False) (x\<lparr>lk_server := s\<rparr>, True)"

inductive fault_run :: "(int \<Rightarrow> bytes) \<Rightarrow> 'r Resolver_vt \<Rightarrow> 'r link \<times> bool \<Rightarrow> 'r link \<times> bool \<Rightarrow> bool"
  for strerr vt x0 where
  start: "fault_run strerr vt x0 x0"
| step: "fault_run strerr vt x0 x \<Longrightarrow> fault_step strerr vt x y \<Longrightarrow> fault_run strerr vt x0 y"

text \<open>A run in which nothing fails is one of these.\<close>

lemma link_run_fault: "link_run strerr vt x0 n x \<Longrightarrow> fault_run strerr vt (x0, False) (x, False)"
  by (induction rule: link_run.induct) (blast intro: fault_run.intros whole)+

lemma broken_read_result: "broken_read r \<Longrightarrow> Read r b = (e, b') \<Longrightarrow> hard e \<and> b' = b"
  by (cases r) (auto simp: Read_def hard_def)

lemma hard_write_result: "hard err \<Longrightarrow> Write (WriteErr err) b = (e, out, b') \<Longrightarrow> e = err \<and> out = [] \<and> b' = empty_buffer"
  by (auto simp: Write_def hard_def Let_def empty_buffer_def)

lemma after_hard [simp]: "hard e \<Longrightarrow> after_write e = Returned e" "hard e \<Longrightarrow> after_read e = Returned e"
  by (simp_all add: hard_def after_write_def after_read_def)

section \<open>The client's side is the code's loops\<close>

lemma fault_step_replays:
  assumes "fault_step strerr vt (x, g) (y, h)" and "replays w0 r0 x"
  shows "replays w0 r0 y"
  using assms(1)
proof cases
  case (receive_fails r e b)
  then show ?thesis using replays_receiving [OF assms(2) receive_fails(3,5), where d = "lk_down x"] by simp
next
  case (request_fails r e s)
  then show ?thesis using replays_server [OF assms(2), where s = s and u = "lk_up x" and d = "lk_down x"] by simp
next
  case (reply_fails err e out s)
  then show ?thesis using replays_server [OF assms(2), where s = s and u = "lk_up x" and d = "lk_down x"] by simp
qed (use assms(2) link_step_replays client_step_replays replays_sending in blast)+

lemma fault_run_replays:
  "fault_run strerr vt (link_start c s, False) xg
   \<Longrightarrow> replays (PrepareToWrite (cl_write c)) (PrepareToRead (cl_read c)) (fst xg)"
proof (induction rule: fault_run.induct)
  case start
  show ?case using replays_start by simp
next
  case (step x y)
  then show ?case using fault_step_replays [of strerr vt "fst x" "snd x" "fst y" "snd y"] by simp
qed

section \<open>The invariant\<close>

text \<open>
  The server has taken a beginning \<open>rx\<close> of the request and said a beginning \<open>tx\<close> of the
  reply, nothing before it has the whole request; resolver and handshake are those before the
  request until then and those after it from then on. A client that has met an error has
  dropped its message.
\<close>

definition gave_up :: "'r link \<Rightarrow> bool" where
  "gave_up x \<longleftrightarrow> (\<exists>e. lk_phase x = Returned e \<and> hard e) \<and> lk_write x = empty_buffer"

definition fault_inv ::
  "('r \<times> bool \<Rightarrow> bytes \<Rightarrow> bytes list \<times> 'r \<times> bool) \<Rightarrow> 'r \<times> bool \<Rightarrow> bytes \<Rightarrow> bytes \<Rightarrow> 'r \<times> bool \<Rightarrow> 'r link \<times> bool \<Rightarrow> bool" where
  "fault_inv sv st0 rq rp st1 = (\<lambda>(x, g). \<exists>rx tx left unsaid.
     (if g then (resolver (lk_server x), is_connected (lk_server x)) = (if rx = rq then st1 else st0)
      else conn_inv sv st0 rx tx (lk_server x))
     \<and> rx @ lk_up x = lk_sent x \<and> lk_sent x @ left = rq \<and> rp = tx @ unsaid \<and> (tx \<noteq> [] \<longrightarrow> rx = rq)
     \<and> (phase_inv rq rp tx x \<or> gave_up x))"

lemma fault_invI:
  "(if g then (resolver (lk_server x), is_connected (lk_server x)) = (if rx = rq then st1 else st0)
      else conn_inv sv st0 rx tx (lk_server x))
   \<Longrightarrow> rx @ lk_up x = lk_sent x \<Longrightarrow> lk_sent x @ left = rq \<Longrightarrow> rp = tx @ unsaid \<Longrightarrow> (tx \<noteq> [] \<Longrightarrow> rx = rq)
   \<Longrightarrow> phase_inv rq rp tx x \<or> gave_up x \<Longrightarrow> fault_inv sv st0 rq rp st1 (x, g)"
  unfolding fault_inv_def by fastforce

lemma fault_invE:
  assumes "fault_inv sv st0 rq rp st1 (x, g)"
  obtains rx tx left unsaid where
    "if g then (resolver (lk_server x), is_connected (lk_server x)) = (if rx = rq then st1 else st0)
      else conn_inv sv st0 rx tx (lk_server x)"
    "rx @ lk_up x = lk_sent x" "lk_sent x @ left = rq" "rp = tx @ unsaid" "tx \<noteq> [] \<Longrightarrow> rx = rq"
    "phase_inv rq rp tx x \<or> gave_up x"
  using assms unfolding fault_inv_def by auto

lemma gave_up_server [simp]: "gave_up (x\<lparr>lk_server := s, lk_up := u, lk_down := d\<rparr>) = gave_up x"
  "gave_up (x\<lparr>lk_server := s\<rparr>) = gave_up x"
  by (simp_all add: gave_up_def)

lemma gave_up_stuck: "gave_up x \<Longrightarrow> \<not> client_step x p y"
  by (auto simp: gave_up_def elim: client_step.cases)

lemma phase_inv_server [simp]: "phase_inv rq rp tx (x\<lparr>lk_server := s\<rparr>) = phase_inv rq rp tx x"
  by (simp add: phase_inv_def owed_def split: phase.split)

text \<open>Where the server is, by how much of the request it has taken.\<close>

lemma served_state:
  assumes "exchanges sv st0 rq rp st1" and "conn_inv sv st0 rx tx s" and "rx @ left = rq"
  shows "(resolver s, is_connected s) = (if rx = rq then st1 else st0)" and "tx \<noteq> [] \<Longrightarrow> rx = rq"
proof -
  obtain wss where ex: "split_block False rq = Some (rq, [])" "rp = enc_block wss @ [NL]"
    "serve_all sv st0 (nl_lines rq) = (wss, fst st1, snd st1)"
    using assms(1) by (auto simp: exchanges_def)
  show "(resolver s, is_connected s) = (if rx = rq then st1 else st0)"
    using server_before(5) [OF ex(1) assms(2,3)] server_after(1,2) [OF ex(1) _ ex(3,2), of tx s] assms(2,3)
    by (cases "left = []") (auto simp: prod_eq_iff)
  show "tx \<noteq> [] \<Longrightarrow> rx = rq"
    using server_before(2) [OF ex(1) assms(2,3)] assms(3) by (cases "left = []") auto
qed

context resolver_contract
begin

lemma client_step_fault:
  assumes rp: "split_block False rp = Some (rp, [])"
    and inv: "fault_inv sv st0 rq rp st1 (x, g)" and turn: "client_step x p y"
  shows "fault_inv sv st0 rq rp st1 (y, g)"
proof -
  from inv obtain rx tx left unsaid where i:
    "if g then (resolver (lk_server x), is_connected (lk_server x)) = (if rx = rq then st1 else st0)
      else conn_inv sv st0 rx tx (lk_server x)"
    "rx @ lk_up x = lk_sent x" "lk_sent x @ left = rq" "rp = tx @ unsaid" "tx \<noteq> [] \<Longrightarrow> rx = rq"
    "phase_inv rq rp tx x \<or> gave_up x" by (rule fault_invE) blast
  have "phase_inv rq rp tx x" using i(6) gave_up_stuck turn by blast
  note c = client_step_phase(1-3) [OF rp i(4) this turn]
  have "rx @ lk_up y = lk_sent y" using c(3) i(2) by (metis append_assoc)
  moreover obtain left' where "lk_sent y @ left' = rq"
    using c(1) by (auto simp: phase_inv_def split: phase.splits)
  ultimately show ?thesis using i(1,4,5) c(1,2) by (intro fault_invI [where rx = rx and tx = tx]) auto
qed

lemma serve_turn_fault:
  assumes ex: "exchanges (serve conn req err strerr) st0 rq rp st1"
    and inv: "fault_inv (serve conn req err strerr) st0 rq rp st1 (x, False)"
    and turn: "conn_step strerr vt (lk_server x) l s" "lk_up x = rx_of l @ rest"
  shows "fault_inv (serve conn req err strerr) st0 rq rp st1
    (x\<lparr>lk_server := s, lk_up := rest, lk_down := lk_down x @ tx_of l\<rparr>, False)"
proof -
  let ?sv = "serve conn req err strerr" and ?y = "x\<lparr>lk_server := s, lk_up := rest, lk_down := lk_down x @ tx_of l\<rparr>"
  from inv obtain rx tx left unsaid where i: "conn_inv ?sv st0 rx tx (lk_server x)"
    "rx @ lk_up x = lk_sent x" "lk_sent x @ left = rq" "rp = tx @ unsaid" "tx \<noteq> [] \<Longrightarrow> rx = rq"
    "phase_inv rq rp tx x \<or> gave_up x" by (rule fault_invE) auto
  have inv': "conn_inv ?sv st0 (rx @ rx_of l) (tx @ tx_of l) s" by (rule conn_step_inv [OF i(1) turn(1)])
  have whole: "(rx @ rx_of l) @ rest @ left = rq" using i(2,3) turn(2) by auto
  obtain unsaid' where said: "rp = (tx @ tx_of l) @ unsaid'" using said_prefix(1) [OF ex inv' whole] by blast
  then have "tx_of l = []" if "tx = rp" using that by auto
  then have "phase_inv rq rp (tx @ tx_of l) ?y" if "phase_inv rq rp tx x"
    using that by (auto simp: phase_inv_def owed_def split: phase.splits)
  then show ?thesis
    using inv' i(2,3,6) turn(2) said served_state(2) [OF ex inv' whole]
    by (intro fault_invI [where rx = "rx @ rx_of l" and tx = "tx @ tx_of l"]) auto
qed

lemma fault_step_inv:
  assumes ex: "exchanges (serve conn req err strerr) st0 rq rp st1"
    and inv: "fault_inv (serve conn req err strerr) st0 rq rp st1 (x, g)" and turn: "fault_step strerr vt (x, g) (y, h)"
  shows "fault_inv (serve conn req err strerr) st0 rq rp st1 (y, h)"
proof -
  let ?sv = "serve conn req err strerr"
  have rp: "split_block False rp = Some (rp, [])" using ex by (simp add: exchanges_def)
  from inv obtain rx tx left unsaid where i:
    "if g then (resolver (lk_server x), is_connected (lk_server x)) = (if rx = rq then st1 else st0)
      else conn_inv ?sv st0 rx tx (lk_server x)"
    "rx @ lk_up x = lk_sent x" "lk_sent x @ left = rq" "rp = tx @ unsaid" "tx \<noteq> [] \<Longrightarrow> rx = rq"
    "phase_inv rq rp tx x \<or> gave_up x" by (rule fault_invE) blast
  have whole: "rx @ lk_up x @ left = rq" using i(2,3) by (simp add: append_assoc [symmetric] del: append_assoc)
  have stays: "fault_inv ?sv st0 rq rp st1 (x\<lparr>lk_server := s\<rparr>, True)"
    if "\<not> g" "resolver s = resolver (lk_server x)" "is_connected s = is_connected (lk_server x)" for s
    using i that served_state(1) [OF ex _ whole]
    by (intro fault_invI [where rx = rx and tx = tx]) auto
  have ends: "fault_inv ?sv st0 rq rp st1 (z, g)"
    if "gave_up z" "lk_sent z = lk_sent x" "lk_up z = lk_up x" "lk_server z = lk_server x" for z
    using i(1-5) that by (intro fault_invI [where rx = rx and tx = tx]) auto
  from turn show ?thesis
  proof cases
    case (whole p)
    from whole(3) show ?thesis
      by cases (use inv ex rp whole(1,2) client_step_fault serve_turn_fault in blast)+
  next
    case (alone p)
    then show ?thesis using client_step_fault [OF rp] inv by blast
  next
    case (send_fails err e out w)
    then show ?thesis
      using hard_write_result [OF send_fails(4,5)] by (auto intro!: ends simp: gave_up_def)
  next
    case (receive_fails r e b)
    then have "lk_write x = empty_buffer" using i(6) by (auto simp: phase_inv_def gave_up_def)
    then show ?thesis
      using receive_fails broken_read_result [OF receive_fails(4,5)] by (auto intro!: ends simp: gave_up_def)
  next
    case (request_fails r e s)
    then show ?thesis by (auto intro!: stays simp: Server_Read_def split: prod.splits)
  next
    case (reply_fails err e out s)
    then show ?thesis by (auto intro!: stays simp: Server_Write_def split: prod.splits)
  qed
qed

lemma fault_run_inv:
  assumes ex: "exchanges (serve conn req err strerr) (resolver s, is_connected s) (buffer (cl_write c) @ [NL]) rp st1"
    and "awaiting s" and "fault_run strerr vt (link_start c s, False) xg"
  shows "fault_inv (serve conn req err strerr) (resolver s, is_connected s) (buffer (cl_write c) @ [NL]) rp st1 xg"
  using assms(3)
proof (induction rule: fault_run.induct)
  case start
  show ?case
    using conn_inv_start [OF assms(2), of "serve conn req err strerr"]
    by (intro fault_invI [where rx = "[]" and tx = "[]"])
      (simp_all add: link_start_def phase_inv_def owed_def PrepareToWrite_def PrepareToRead_def empty_buffer_def)
next
  case (step x y)
  then show ?case using fault_step_inv [OF ex, of "fst x" "snd x" "fst y" "snd y"] by simp
qed

section \<open>What is left\<close>

text \<open>Whenever one looks, the server is where it was before the request or where it should be after it.\<close>

lemma fault_server:
  assumes ex: "exchanges (serve conn req err strerr) st0 rq rp st1"
    and inv: "fault_inv (serve conn req err strerr) st0 rq rp st1 (x, g)"
  shows "(resolver (lk_server x), is_connected (lk_server x)) \<in> {st0, st1}"
    "length (lk_sent x) < length rq \<Longrightarrow> (resolver (lk_server x), is_connected (lk_server x)) = st0"
    "lk_phase x = Returned 0 \<Longrightarrow> (resolver (lk_server x), is_connected (lk_server x)) = st1"
proof -
  from inv obtain rx tx left unsaid where i:
    "if g then (resolver (lk_server x), is_connected (lk_server x)) = (if rx = rq then st1 else st0)
      else conn_inv (serve conn req err strerr) st0 rx tx (lk_server x)"
    "rx @ lk_up x = lk_sent x" "lk_sent x @ left = rq" "rp = tx @ unsaid" "tx \<noteq> [] \<Longrightarrow> rx = rq"
    "phase_inv rq rp tx x \<or> gave_up x" by (rule fault_invE) blast
  have "rx @ lk_up x @ left = rq" using i(2,3) by (simp add: append_assoc [symmetric] del: append_assoc)
  then have st: "(resolver (lk_server x), is_connected (lk_server x)) = (if rx = rq then st1 else st0)"
    using i(1) served_state(1) [OF ex] by (cases g) auto
  then show "(resolver (lk_server x), is_connected (lk_server x)) \<in> {st0, st1}" by auto
  have "length rx \<le> length (lk_sent x)" by (simp add: i(2) [symmetric])
  then show "length (lk_sent x) < length rq \<Longrightarrow> (resolver (lk_server x), is_connected (lk_server x)) = st0"
    using st by auto
  have "rp \<noteq> []" using ex by (auto simp: exchanges_def)
  then show "lk_phase x = Returned 0 \<Longrightarrow> (resolver (lk_server x), is_connected (lk_server x)) = st1"
    using st i(5,6) by (auto simp: phase_inv_def gave_up_def hard_def)
qed

lemma fault_returned:
  assumes "fault_inv sv st0 rq rp st1 (x, g)" and "lk_phase x = Returned e"
  shows "lk_write x = empty_buffer" "if e = 0 then lk_read x = \<lparr>buffer = rp, lastBol = 0\<rparr> else hard e"
  using assms by (auto simp: fault_inv_def phase_inv_def gave_up_def hard_def)

lemma uncork_fault:
  assumes "channel c = Fds f t" and "queued reqs c" and "reqs \<noteq> []" and "RC_HWM \<notin> snd ` set reqs" and "awaiting s"
    and "serve_all (serve conn req err strerr) (resolver s, is_connected s) (map fst reqs) = (wss, r', c')"
    and "fault_run strerr vt (link_start c s, False) (x, g)" and "lk_phase x = Returned e"
  shows "\<exists>d. Uncork strerr vt' (with_answers x c)
      = Inr (if e = 0 then packets wss (map snd reqs) else [CommunicationError strerr e], d) \<and> idle d
    \<and> cl_connected d = (cl_connected c \<or> e = 0 \<and> connects (packets wss (map snd reqs)))"
proof -
  have held: "map fst reqs \<noteq> []" "list_all plain_line (map fst reqs)" "buffer (cl_write c) = text_block (map fst reqs)"
    using assms(2,3) by (auto simp: queued_def holds_lines_def)
  note ex = block_exchanges [OF held(1,2) assms(6)]
  note wss = block_wss [OF held(1,2) assms(6)]
  have ends: "lk_write x = empty_buffer" "if e = 0 then lk_read x = \<lparr>buffer = enc_block wss @ [NL], lastBol = 0\<rparr> else hard e"
    using fault_returned [OF fault_run_inv [OF _ assms(5,7), of "enc_block wss @ [NL]" "(r', c')"] assms(8)] ex held(3) by auto
  have com: "CommunicateWithServer strerr vt' (with_answers x c) = Inr (e, after_exchange x c)"
    using replays_communicates [OF _ assms(8,1)] fault_run_replays [OF assms(7)] by simp
  have "wss \<noteq> []" using wss(2) assms(3) by auto
  then have "remaining wss (cl_read (after_exchange x c))" if "e = 0"
    using ends(2) wss(1) that by (auto simp: remaining_def after_exchange_def)
  then show ?thesis
    using com ends(1) uncork_received [of strerr vt' x c wss reqs] uncork_failed [of strerr vt' x c e reqs] assms(2-4) wss(2)
    by (cases "e = 0") (auto simp: after_exchange_def)
qed

end

end
