(* ===== verification/BufferProperties.thy ===== *)
theory BufferProperties
  imports Numbers
begin

text \<open>
  What the message buffer guarantees to client and server: the properties of writing,
  transport and lexing, each with an application to a concrete buffer where it has
  hypotheses.
\<close>

section \<open>Auxiliary facts\<close>

text \<open>A block written line by line and word by word, the way the client and the server do.\<close>

definition write_block :: "bytes list list \<Rightarrow> MessageBuffer \<Rightarrow> MessageBuffer" where
  "write_block ls b = fold (\<lambda>ws b. EndLine (fold (\<lambda>w. AppendWord_string w True) ws (BeginLine b))) ls b"

lemma write_block_holds: "[] \<notin> set ls \<Longrightarrow> holds_block ls (write_block ls empty_buffer)"
  using buf.put_lines_whole [of "[]" empty_buffer ls]
  by (simp add: write_block_def holds_block_def empty_buffer_def)

lemma write_block_lexes:
  "ls \<noteq> [] \<Longrightarrow> [] \<notin> set ls
   \<Longrightarrow> lex_rest (PrepareToWrite (write_block ls empty_buffer)) = Inr (map line_result ls)"
  by (intro lex_rest_remaining PrepareToWrite_remaining write_block_holds)

lemma length_esc: "length (esc c) \<le> 3"
proof -
  have "length (escape_char c) \<le> 2"
    using escape_nibbles_8 [OF nat_of_char_less_256, of c] by (simp add: escape_char_def)
  then show ?thesis by (simp add: esc_def)
qed

lemma length_concat_esc: "length (concat (map esc s)) \<le> 3 * length s"
  by (induction s) (auto intro: add_mono length_esc le_trans)

section \<open>Round trips\<close>

text \<open>C4: words are text to the writer and text to the reader: a block of lines of ASCII
  words, whatever spaces, quotes, backslashes, newlines or control characters they
  contain, written by \<open>BeginLine\<close>, \<open>AppendWord\<close>, \<open>EndLine\<close> and \<open>PrepareToWrite\<close>, is
  lexed back into exactly those lines.\<close>

theorem block_roundtrip:
  assumes "ls \<noteq> []" and "\<forall>ws \<in> set ls. ws \<noteq> [] \<and> list_all ascii_word ws"
  shows "lex_rest (PrepareToWrite (write_block ls empty_buffer)) = Inr (map (\<lambda>ws. (0, ws)) ls)"
proof -
  have "map line_result ls = map (\<lambda>ws. (0, ws)) ls" using assms(2) by (simp add: line_result_def)
  then show ?thesis using write_block_lexes [of ls] assms by fastforce
qed

theorem block_roundtrip_witness:
  "lex_rest (PrepareToWrite (write_block [[''MODULE-IMPORT'', ''a b'', [NL]], [[], [APOS, BSLASH]]] empty_buffer))
   = Inr [(0, [''MODULE-IMPORT'', ''a b'', [NL]]), (0, [[], [APOS, BSLASH]])]"
  by (subst block_roundtrip) (simp_all add: ascii_def uchar_def)

text \<open>C15: a block crosses a byte stream unchanged, whatever its words: if the system
  eventually takes all the bytes of the writer's retry loop, and the reader's retry loop is
  given the same bytes cut into any pieces, with any EAGAIN and EINTR in between, then both
  loops end with success. The reader then lexes each line of ASCII words back into these
  words, and rejects each line that has a byte from 128 up with EINVAL and the text written;
  neither affects the other lines.\<close>

theorem stream_roundtrip:
  assumes "ls \<noteq> []" and "[] \<notin> set ls"
    and "takes_all (length (enc_block ls) + 1) wrets" and "delivers (enc_block ls @ [NL]) rrets"
  shows "\<exists>wrest rrest b. write_all wrets (PrepareToWrite (write_block ls empty_buffer))
        = Inr (0, enc_block ls @ [NL], empty_buffer, wrest)
      \<and> read_all rrets (PrepareToRead c) = Inr (0, b, rrest)
      \<and> lex_rest b = Inr (map (\<lambda>ws. if list_all ascii_word ws then (0, ws) else (EINVAL, [enc_line ws])) ls)"
proof -
  have holds: "holds_lines (map enc_line ls) (write_block ls empty_buffer)"
    using write_block_holds [OF assms(2)] by (simp add: holds_block_lines)
  let ?b = "\<lparr>buffer = enc_block ls @ [NL], lastBol = 0\<rparr>"
  have "remaining ls ?b" using assms(1,2) by (auto simp: remaining_def)
  then have "lex_rest ?b = Inr (map (\<lambda>ws. if list_all ascii_word ws then (0, ws) else (EINVAL, [enc_line ws])) ls)"
    using lex_rest_remaining by (simp add: line_result_def cong: map_cong)
  moreover have "map enc_line ls \<noteq> []" using assms(1) by simp
  from transport_block [OF holds this assms(3,4) [unfolded enc_block_def], folded enc_block_def]
  obtain w r where "write_all wrets (PrepareToWrite (write_block ls empty_buffer)) = Inr (0, enc_block ls @ [NL], empty_buffer, w)"
    "read_all rrets (PrepareToRead c) = Inr (0, ?b, r)" by blast
  ultimately show ?thesis by blast
qed

lemma enc_block_OK: "enc_block [[''OK'']] = ''OK''"
  by (simp add: enc_block_Cons enc_line_def enc_word_def safe_word_def needs_quote_def uchar_def)

theorem stream_roundtrip_witness:
  "\<exists>wrest rrest b. write_all [Wrote 1, WriteErr EAGAIN, Wrote 2]
          (PrepareToWrite (write_block [[''OK'']] empty_buffer))
        = Inr (0, ''OK'' @ [NL], empty_buffer, wrest)
      \<and> read_all [ReadErr EINTR, Got ''O'', Got [CHR ''K'', NL]] (PrepareToRead empty_buffer) = Inr (0, b, rrest)
      \<and> lex_rest b = Inr [(0, [''OK''])]"
  using stream_roundtrip [of "[[''OK'']]" "[Wrote 1, WriteErr EAGAIN, Wrote 2]"
      "[ReadErr EINTR, Got ''O'', Got [CHR ''K'', NL]]" empty_buffer]
  by (simp add: enc_block_OK ascii_def uchar_def)

section \<open>Lexing\<close>

text \<open>C14: on any buffer of complete lines, \<open>Lex\<close> consumes exactly the next line and
  returns what the reference lexer says of its text: the words, ENOENT for a line without
  words, or EINVAL with the line's text without its continuation. (The reference is the
  language the code accepts, which is smaller than the README's: outside quotes no semicolon
  inside a word, no 0x7f and nothing from 0x80 up.)\<close>

theorem Lex_correct:
  assumes "readable b" and "\<not> IsAtEnd b"
  shows "Lex b =
    (let line = next_line b; after = b\<lparr>lastBol := lastBol b + length line + 1\<rparr>
     in case lex_line line of
          None \<Rightarrow> Inr (EINVAL, [strip_cont line], after)
        | Some [] \<Rightarrow> Inr (ENOENT, [], after)
        | Some (w # ws) \<Rightarrow> Inr (0, w # ws, after))"
  using Lex_line [OF assms] by (auto simp: Let_def lex_result_def skip_line_def split: option.split list.split)

theorem Lex_correct_witness:
  "Lex \<lparr>buffer = ''A '' @ [APOS] @ ''b c'' @ [APOS, NL], lastBol = 0\<rparr>
   = Inr (0, [''A'', ''b c''], \<lparr>buffer = ''A '' @ [APOS] @ ''b c'' @ [APOS, NL], lastBol = 8\<rparr>)"
  by (subst Lex_correct)
    (simp_all add: readable_def IsAtEnd_def next_line_def lex_line_def Let_def uchar_def)

text \<open>C5: no input from the other side makes the lexer read outside the buffer: whatever
  bytes arrive, once \<open>Read\<close> has reported a complete block, lexing it line by line to its
  end succeeds without a fault.\<close>

theorem received_block_lexes:
  assumes "split_block False (buffer b) = None" and "cs \<noteq> []" and "Read (Got cs) b = (0, b')" and "lastBol b = 0"
  shows "\<exists>rs. lex_rest b' = Inr rs"
proof -
  obtain blk where "split_block False (buffer b @ cs) = Some (blk, [])" "b' = b\<lparr>buffer := blk\<rparr>"
    using assms(3) Read_split [OF assms(1,2)] by (auto split: option.splits if_splits)
  then have "readable b'"
    using split_block_last [of False "buffer b @ cs" blk "[]"] assms(4) by (auto simp: readable_def)
  then show ?thesis by (rule lex_rest_total)
qed

theorem received_block_lexes_witness:
  "\<exists>rs. lex_rest \<lparr>buffer = [APOS, BSLASH, NL], lastBol = 0\<rparr> = Inr rs"
  by (rule received_block_lexes [of empty_buffer "[APOS, BSLASH, NL]"])
    (simp_all add: empty_buffer_def Read_def read_scan.simps find_from_def Let_def)

text \<open>C36: the lexer does not depend on the signedness of plain \<open>char\<close>, although its tests
  compare plain characters: on any buffer the two readings give the same result.\<close>

theorem Lex_sign_independent: "Lex_at True b = Lex_at False b"
  by (rule Lex_sign)

text \<open>C30: a word with a byte from 128 up is written raw, and the reader rejects the whole
  line with EINVAL: UTF-8 text does not survive the protocol.\<close>

theorem non_ascii_rejected:
  assumes "ws \<noteq> []" and "\<exists>w \<in> set ws. \<exists>c \<in> set w. 128 \<le> uchar c"
  shows "lex_rest (PrepareToWrite (write_block [ws] empty_buffer)) = Inr [(EINVAL, [enc_line ws])]"
  using assms write_block_lexes [of "[ws]"]
  by (auto simp: line_result_def ascii_word_def ascii_def list_all_iff linorder_not_less)

theorem non_ascii_rejected_witness:
  "lex_rest (PrepareToWrite (write_block [[''MODULE-IMPORT'', [CHR 0xC3, CHR 0xA9]]] empty_buffer))
   = Inr [(EINVAL, [enc_line [''MODULE-IMPORT'', [CHR 0xC3, CHR 0xA9]]])]"
  by (rule non_ascii_rejected) (simp_all add: uchar_def)

text \<open>C27: \<open>LexedLine\<close> appends the text of the line just lexed, without its continuation,
  except that its unguarded test for one reads before the beginning of the buffer when the
  block's first line is empty or a lone semicolon.\<close>

theorem LexedLine_faults_exactly:
  assumes "readable b" and "\<not> IsAtEnd b" and "Lex b = Inr (e, ws, b')"
  shows "LexedLine b' str =
    (if lastBol b = 0 \<and> (next_line b = [] \<or> next_line b = [CONTINUE]) then Inl OutOfRange
     else Inr (str @ strip_cont (next_line b)))"
  using LexedLine_line [OF assms(1,2)] assms(3) Lex_line [OF assms(1,2)] by simp

theorem LexedLine_faults_exactly_witness:
  "LexedLine \<lparr>buffer = [NL], lastBol = 1\<rparr> [] = Inl OutOfRange"
  using LexedLine_faults_exactly [of "\<lparr>buffer = [NL], lastBol = 0\<rparr>" ENOENT "[]" "\<lparr>buffer = [NL], lastBol = 1\<rparr>" "[]"]
    Lex_line [of "\<lparr>buffer = [NL], lastBol = 0\<rparr>"]
  by (simp add: readable_def IsAtEnd_def next_line_def lex_result_def lex_line_def skip_line_def)

section \<open>Input and output\<close>

text \<open>C22: \<open>Read\<close> recognises the end of a block incrementally: as long as no complete block
  has arrived it asks for more, a chunk that ends the block exactly gives success, and a
  chunk that goes on after the end of the block gives EINVAL and drops what follows. The
  place where the block ends depends only on the concatenation of the chunks.\<close>

theorem Read_recognises_block:
  assumes "split_block False (buffer b) = None" and "cs \<noteq> []"
  shows "Read (Got cs) b =
    (case split_block False (buffer b @ cs) of
       None \<Rightarrow> (EAGAIN, b\<lparr>buffer := buffer b @ cs\<rparr>)
     | Some (blk, rest) \<Rightarrow> (if rest = [] then 0 else EINVAL, b\<lparr>buffer := blk\<rparr>))"
  by (rule Read_split [OF assms])

theorem Read_recognises_block_witness:
  "Read (Got [NL, CHR ''C'']) \<lparr>buffer = ''A ;'' @ [NL] @ ''B'', lastBol = 0\<rparr>
   = (EINVAL, \<lparr>buffer = ''A ;'' @ [NL] @ ''B'' @ [NL], lastBol = 0\<rparr>)"
  by (subst Read_recognises_block) simp_all



text \<open>C38: \<open>Append\<close> never needs more room than it reserves: once the scan has decided whether
  to quote, the appended text is at most three times the word if so, its own length
  otherwise, and two more.\<close>

theorem Append_within_reserve:
  "length (buffer (Append str quote len b))
   \<le> length (buffer b) + length (c_extent str len)
       * (if quote \<and> (c_extent str len = [] \<or> scan_quote (c_extent str len) (length (c_extent str len))) then 3 else 1) + 2"
proof -
  have "length (enc_word w) \<le> length w * (if w = [] \<or> scan_quote w (length w) then 3 else 1) + 2" for w
    using length_concat_esc [of w] by (auto simp: enc_word_def safe_word_def scan_quote_iff)
  then show ?thesis by (auto simp: Append_adds app_bytes_def)
qed

text \<open>A number written by \<open>AppendInteger\<close> is read back by \<open>ParseUnsigned\<close>, for every
  32-bit value; the largest one is also the error value.\<close>

theorem integer_roundtrip:
  "lex_rest (PrepareToWrite (EndLine (AppendInteger u (BeginLine empty_buffer)))) = Inr [(0, [to_string (unat u)])]
   \<and> ParseUnsigned (to_string (unat u)) = u"
proof -
  have "holds_block ([] @ [[to_string (unat u)]]) (EndLine (AppendInteger u (BeginLine empty_buffer)))"
    unfolding AppendInteger_def by (rule buf.keyword_line) (simp_all add: holds_block_def empty_buffer_def)
  then have "lex_rest (PrepareToWrite (EndLine (AppendInteger u (BeginLine empty_buffer))))
      = Inr (map line_result [[to_string (unat u)]])"
    by (intro lex_rest_remaining PrepareToWrite_remaining) simp_all
  moreover have "ascii_word (to_string (unat u))"
    using to_string_safe [of "unat u"] needs_quote_bounds(8)
    by (auto simp: safe_word_def ascii_word_def list_all_iff)
  ultimately show ?thesis by (simp add: line_result_def ParseUnsigned_to_string)
qed

text \<open>C40: \<open>ParseUnsigned\<close> accepts a word as \<open>u\<close> exactly when, up to its first NUL, it is empty
  and \<open>u\<close> is 0, or it is blanks, an optional sign and digits, of a value below \<open>2 ^ 64\<close> that
  after negation modulo \<open>2 ^ 64\<close> is \<open>u\<close>. So more is accepted than unsigned numbers, and
  4294967295 is not, as it stands for an error.\<close>

theorem ParseUnsigned_accepts:
  "ParseUnsigned w = u \<and> u \<noteq> - 1 \<longleftrightarrow>
     u \<noteq> - 1 \<and> (c_str w = [] \<and> u = 0
       \<or> (\<exists>sp sg ds. c_str w = sp @ sg @ ds \<and> list_all is_space sp \<and> sg \<in> {[], ''+'', ''-''} \<and> list_all is_digit ds
            \<and> ds \<noteq> [] \<and> dec_val ds < 2 ^ 64
            \<and> unat u = (if sg = ''-'' then (2 ^ 64 - dec_val ds) mod 2 ^ 64 else dec_val ds)))"
  using ParseUnsigned_denotes [of u w]
  unfolding denotes_def signed_val_def sign_def insert_iff empty_iff unat_eq_0 by blast

text \<open>Examples of numbers that are accepted beyond the unsigned ones, and of ones that are not.\<close>

theorem ParseUnsigned_leniency:
  "ParseUnsigned [] = 0 \<and> ParseUnsigned '' +7'' = 7 \<and> ParseUnsigned ''-18446744073709551615'' = 1
   \<and> ParseUnsigned ''7x'' = - 1 \<and> ParseUnsigned ''-1'' = - 1 \<and> ParseUnsigned ''4294967296'' = - 1"
proof -
  have "ucast (- 1 :: 64 word) = (- 1 :: 32 word)" by (rule bit_word_eqI) (simp add: bit_simps)
  then show ?thesis
    by (simp add: ParseUnsigned_def strtoul_def c_str_def is_space_def is_digit_def dec_val_def
        digit_val_def uchar_def)
qed

end
