(* ===== verification/ServerProperties.thy ===== *)
theory ServerProperties
  imports ResolverServer BufferProperties
begin

text \<open>
  What the server and the default resolver guarantee: one reply for each request line, the
  handshake guard, the mapping of names to CMI files, and the places where the code departs
  from its documentation.
\<close>

section \<open>Auxiliary facts\<close>

lemma serve_all_length: "serve_all step st ls = (wss, st') \<Longrightarrow> length wss = length ls"
  by (induction ls arbitrary: st wss) (auto split: prod.splits)

text \<open>A line that is not a well-formed handshake.\<close>

definition not_hello :: "bytes \<Rightarrow> bool" where
  "not_hello line \<longleftrightarrow> (\<forall>v a i. decode (case lex_line line of None \<Rightarrow> [] | Some ws \<Rightarrow> ws) \<noteq> Hello v a i)"

text \<open>What an unconnected server has to say to such a line, and the answers to a whole block.\<close>

definition refusal :: "bytes \<Rightarrow> bytes" where
  "refusal line =
     complaint (case decode (case lex_line line of None \<Rightarrow> [] | Some ws \<Rightarrow> ws) of
         Unrecognized \<Rightarrow> ''unrecognized'' | BadHello \<Rightarrow> ''malformed'' | _ \<Rightarrow> ''not connected'') line"

fun refuse_all :: "('r \<Rightarrow> bytes \<Rightarrow> bytes list \<times> 'r) \<Rightarrow> 'r \<Rightarrow> bytes list \<Rightarrow> bytes list list \<times> 'r" where
  "refuse_all err r [] = ([], r)"
| "refuse_all err r (m # ms) = (let (ws, r) = err r m; (wss, r) = refuse_all err r ms in (ws # wss, r))"

lemma serve_unconnected:
  "not_hello line \<Longrightarrow> serve conn req err strerr (r, False) line = (let (ws, r') = err r (refusal line) in (ws, r', False))"
  by (auto simp: not_hello_def refusal_def Let_def split: decoded.split)

lemma serve_all_unconnected:
  "\<forall>line \<in> set ls. not_hello line \<Longrightarrow> refuse_all err r (map refusal ls) = (wss, r')
   \<Longrightarrow> serve_all (serve conn req err strerr) (r, False) ls = (wss, r', False)"
  by (induction ls arbitrary: r wss) (auto simp: serve_unconnected simp del: serve.simps split: prod.splits)

text \<open>Concrete lines and buffers.\<close>

lemma hello_line: "lex_line ''HELLO 1 gcc'' = Some [''HELLO'', ''1'', ''gcc'']"
  by (simp add: lex_line_def uchar_def)

lemma repo_line: "lex_line ''MODULE-REPO'' = Some [''MODULE-REPO'']"
  by (simp add: lex_line_def uchar_def)

lemma number_1: "ParseUnsigned ''1'' = 1"
  by (simp add: ParseUnsigned_def strtoul_def c_str_def is_space_def is_digit_def dec_val_def
      digit_val_def uchar_def)

lemma to_string_1: "to_string 1 = ''1''"
  by (subst to_string.simps) (simp add: char_of_def bit_0)

lemma to_string_Suc_0: "to_string (Suc 0) = ''1''"
  using to_string_1 by simp

lemma holds_empty [simp]: "holds_block [] empty_buffer"
  by (simp add: holds_block_def empty_buffer_def)

lemma decode_hello_line: "decode [''HELLO'', ''1'', ''gcc''] = Hello 1 ''gcc'' []"
  by (simp add: decode_def decode_hello_def decode_number_def number_1)

lemma decode_repo_line: "decode [''MODULE-REPO''] = Request Repo"
  by (simp add: decode_def)

lemma hello_line_cont: "lex_line ''HELLO 1 gcc ;'' = Some [''HELLO'', ''1'', ''gcc'']"
  by (simp add: lex_line_def uchar_def)

text \<open>A handshake and a request in one block, on a fresh server of the default resolver.\<close>

definition example_block :: MessageBuffer where
  "example_block = \<lparr>buffer = ''HELLO 1 gcc ;'' @ [NL] @ ''MODULE-REPO'' @ [NL], lastBol = 0\<rparr>"

definition example_server :: "MessageBuffer \<Rightarrow> os \<Rightarrow> os Server" where
  "example_server b w = (Server_new w 0 1)\<lparr>sv_read := b\<rparr>"

lemma example_server_fields [simp]:
  "sv_read (example_server b w) = b" "resolver (example_server b w) = w" "is_connected (example_server b w) = False"
  "sv_write (example_server b w) = empty_buffer" "holds_block [] (sv_write (example_server b w))"
  by (simp_all add: example_server_def Server_new_def Server_PrepareToRead_def empty_buffer_def holds_block_def)

lemma example_block_lines:
  "readable example_block" "next_line example_block = ''HELLO 1 gcc ;''" "\<not> IsAtEnd example_block"
  "lines_of example_block = [''HELLO 1 gcc ;'', ''MODULE-REPO'']"
  by (simp_all add: example_block_def readable_def next_line_def lines_of_def IsAtEnd_def)

lemma example_serve:
  "serve_all (default_serve strerr) (w, False) (lines_of example_block)
   = ([[''HELLO'', ''1'', ''default''], [''PATHNAME'', REPO_DIR]], w, True)"
  by (simp add: example_block_lines hello_line_cont repo_line decode_hello_line decode_repo_line
      default_conn_def default_req_def to_string_Suc_0 Let_def)

section \<open>Requests and replies\<close>

lemma server_refines:
  assumes "resolver_contract vt conn req err"
    and "readable (sv_read s)"
    and "lastBol (sv_read s) = 0 \<Longrightarrow> next_line (sv_read s) \<noteq> [] \<and> next_line (sv_read s) \<noteq> [CONTINUE]"
    and "holds_block ls (sv_write s)"
    and "serve_all (serve conn req err strerr) (resolver s, is_connected s) (lines_of (sv_read s)) = (wss, r', c')"
  shows "length wss = length (lines_of (sv_read s))
    \<and> (\<exists>w. ProcessRequests strerr vt s = Inr (s\<lparr>direction := PROCESSING, sv_read := at_end (sv_read s),
             sv_write := w, resolver := r', is_connected := c'\<rparr>)
         \<and> holds_block (ls @ wss) w)"
proof -
  have "resolver_contract.abstract_replies conn req err strerr s (lines_of (sv_read s)) = (wss, r', c')"
    using assms(5) by (simp add: resolver_contract.abstract_replies_def [OF assms(1)])
  from resolver_contract.ProcessRequests_answers [OF assms(1-4) this] show ?thesis by auto
qed

text \<open>C2: for every resolver that keeps its contract, \<open>ProcessRequests\<close> on a buffer of
  complete lines, whose first line is neither empty nor a lone semicolon (there the code
  faults, as \<open>requests_outcome\<close> shows), returns, consumes the block, and adds exactly one reply
  for each line, in order: the replies of the abstract server.\<close>

theorem server_refines_abstract:
  assumes "resolver_contract vt conn req err"
    and "readable (sv_read s)"
    and "lastBol (sv_read s) = 0 \<Longrightarrow> next_line (sv_read s) \<noteq> [] \<and> next_line (sv_read s) \<noteq> [CONTINUE]"
    and "holds_block ls (sv_write s)"
    and "serve_all (serve conn req err strerr) (resolver s, is_connected s) (lines_of (sv_read s)) = (wss, r', c')"
  shows "length wss = length (lines_of (sv_read s))
    \<and> (\<exists>w. ProcessRequests strerr vt s = Inr (s\<lparr>direction := PROCESSING, sv_read := at_end (sv_read s),
             sv_write := w, resolver := r', is_connected := c'\<rparr>)
         \<and> holds_block (ls @ wss) w)"
  by (rule server_refines [OF assms])

theorem server_refines_abstract_witness:
  "\<exists>w. ProcessRequests (\<lambda>_. []) default_resolver (example_server example_block \<lparr>os_open = -1, os_fstatat = \<lambda>_ _. None, open_fds = []\<rparr>)
       = Inr ((example_server example_block \<lparr>os_open = -1, os_fstatat = \<lambda>_ _. None, open_fds = []\<rparr>)
           \<lparr>direction := PROCESSING, sv_read := at_end example_block, sv_write := w,
            resolver := \<lparr>os_open = -1, os_fstatat = \<lambda>_ _. None, open_fds = []\<rparr>, is_connected := True\<rparr>)
     \<and> holds_block [[''HELLO'', ''1'', ''default''], [''PATHNAME'', REPO_DIR]] w"
  using server_refines_abstract [OF dflt.resolver_contract_axioms,
      of "example_server example_block \<lparr>os_open = -1, os_fstatat = \<lambda>_ _. None, open_fds = []\<rparr>" "[]" "\<lambda>_. []"]
    example_serve [of "\<lambda>_. []" "\<lparr>os_open = -1, os_fstatat = \<lambda>_ _. None, open_fds = []\<rparr>"]
  by (simp add: example_block_lines del: serve_all.simps)

text \<open>C19: before the handshake nothing is served: for every resolver that keeps its contract, an
  unconnected server that processes a block without a well-formed HELLO, whose first line is
  neither empty nor a lone semicolon, calls only the resolver's \<open>ErrorResponse\<close>, once for each
  line and in order, saying \<open>not connected\<close> to a known request, \<open>malformed\<close> to a handshake
  it cannot read and \<open>unrecognized\<close> to anything else; its replies are all that is written, the
  resolver changes only as they change it, and the server stays unconnected.\<close>

theorem handshake_required:
  assumes "resolver_contract vt conn req err" and "readable (sv_read s)"
    and "lastBol (sv_read s) = 0 \<Longrightarrow> next_line (sv_read s) \<noteq> [] \<and> next_line (sv_read s) \<noteq> [CONTINUE]"
    and "holds_block ls (sv_write s)" and "\<not> is_connected s"
    and "\<forall>line \<in> set (lines_of (sv_read s)). not_hello line"
    and "refuse_all err (resolver s) (map refusal (lines_of (sv_read s))) = (wss, r')"
  shows "\<exists>s'. ProcessRequests strerr vt s = Inr s' \<and> holds_block (ls @ wss) (sv_write s')
    \<and> length wss = length (lines_of (sv_read s)) \<and> \<not> is_connected s' \<and> resolver s' = r'"
proof -
  have "serve_all (serve conn req err strerr) (resolver s, is_connected s) (lines_of (sv_read s)) = (wss, r', False)"
    using serve_all_unconnected [OF assms(6,7)] assms(5) by simp
  from server_refines [OF assms(1-4) this] show ?thesis by fastforce
qed

theorem handshake_required_witness:
  "\<exists>s'. ProcessRequests (\<lambda>_. []) default_resolver
        (example_server \<lparr>buffer = ''MODULE-REPO ;'' @ [NL] @ ''X'' @ [NL], lastBol = 0\<rparr> undefined) = Inr s'
    \<and> holds_block [[''ERROR'', ''not connected '' @ [APOS] @ ''MODULE-REPO'' @ [APOS]], [''ERROR'', ''unrecognized '' @ [APOS] @ ''X'' @ [APOS]]]
        (sv_write s')
    \<and> \<not> is_connected s' \<and> resolver s' = undefined"
proof -
  have lex: "lex_line ''MODULE-REPO ;'' = Some [''MODULE-REPO'']" "lex_line ''X'' = Some [''X'']" by code_simp+
  have x: "decode [''X''] = Unrecognized" by (simp add: decode_def)
  have strip: "strip_cont ''MODULE-REPO ;'' = ''MODULE-REPO''" "strip_cont ''X'' = ''X''" by code_simp+
  show ?thesis
    using handshake_required [OF dflt.resolver_contract_axioms, of "example_server \<lparr>buffer = ''MODULE-REPO ;'' @ [NL] @ ''X'' @ [NL], lastBol = 0\<rparr> undefined" "[]" _ undefined "\<lambda>_. []"]
    by (simp add: readable_def next_line_def lines_of_def not_hello_def refusal_def complaint_def default_err_def lex strip x decode_repo_line)
qed

text \<open>C29: what \<open>ProcessRequests\<close> does with any text a client or a broken stream can leave in the
  read buffer, for every resolver that keeps its contract: nothing with an empty buffer; a
  text that does not end with a newline fails the assertion of \<open>Lex\<close>; if the first line is
  empty or a lone semicolon, the server reads before the beginning of the buffer while it
  words the error; and every other text is answered line by line by the abstract server.\<close>

theorem requests_outcome:
  assumes "resolver_contract vt conn req err" and "lastBol (sv_read s) = 0" and "buffer (sv_write s) = []"
    and "serve_all (serve conn req err strerr) (resolver s, is_connected s) (nl_lines (buffer (sv_read s))) = (wss, r', c')"
  shows "if buffer (sv_read s) = [] then ProcessRequests strerr vt s = Inr (s\<lparr>direction := PROCESSING\<rparr>)
    else if last (buffer (sv_read s)) \<noteq> NL then ProcessRequests strerr vt s = Inl AssertFailure
    else if hd (nl_lines (buffer (sv_read s))) \<in> {[], [CONTINUE]} then ProcessRequests strerr vt s = Inl OutOfRange
    else length wss = length (nl_lines (buffer (sv_read s)))
      \<and> (\<exists>w. ProcessRequests strerr vt s = Inr (s\<lparr>direction := PROCESSING, sv_read := at_end (sv_read s),
             sv_write := w, resolver := r', is_connected := c'\<rparr>) \<and> buffer w = enc_block wss)"
proof -
  let ?txt = "buffer (sv_read s)"
  consider "?txt = []" | "?txt \<noteq> []" "last ?txt \<noteq> NL" | "?txt \<noteq> []" "last ?txt = NL" by blast
  then show ?thesis
  proof cases
    case 1
    then show ?thesis using assms(2) by (simp add: ProcessRequests_end IsAtEnd_def)
  next
    case 2
    then show ?thesis using assms(2) unterminated_faults [of s strerr vt] by (simp add: IsAtEnd_def)
  next
    case 3
    then have at: "readable (sv_read s)" "\<not> IsAtEnd (sv_read s)" using assms(2) by (auto simp: readable_def IsAtEnd_def)
    have lines: "lines_of (sv_read s) = nl_lines ?txt" using assms(2) by (simp add: lines_of_def)
    then have first: "hd (nl_lines ?txt) = next_line (sv_read s)" using lines_of_line [OF at] by (metis list.sel(1))
    show ?thesis
    proof (cases "next_line (sv_read s) \<in> {[], [CONTINUE]}")
      case True
      then show ?thesis using 3 bad_first_line_faults [OF at assms(2), of strerr vt] by (simp add: first)
    next
      case False
      then show ?thesis
        using 3 server_refines [OF assms(1) at(1) _ _, of "[]" strerr wss r' c'] assms(3,4)
        by (auto simp: first lines holds_block_def)
    qed
  qed
qed

theorem requests_outcome_witness:
  "ProcessRequests (\<lambda>_. []) default_resolver (example_server \<lparr>buffer = ''MODULE-REPO'', lastBol = 0\<rparr> undefined) = Inl AssertFailure
   \<and> ProcessRequests (\<lambda>_. []) default_resolver (example_server \<lparr>buffer = [CHR '';'', NL], lastBol = 0\<rparr> undefined) = Inl OutOfRange
   \<and> (\<exists>s' wss. ProcessRequests (\<lambda>_. []) default_resolver (example_server example_block undefined) = Inr s'
        \<and> buffer (sv_write s') = enc_block wss \<and> length wss = 2)"
proof (intro conjI)
  let ?s = "\<lambda>b. example_server b undefined"
  have outcome: "if buffer b = [] then True
      else if last (buffer b) \<noteq> NL then ProcessRequests (\<lambda>_. []) default_resolver (?s b) = Inl AssertFailure
      else if hd (nl_lines (buffer b)) \<in> {[], [CONTINUE]} then ProcessRequests (\<lambda>_. []) default_resolver (?s b) = Inl OutOfRange
      else \<exists>s' wss. ProcessRequests (\<lambda>_. []) default_resolver (?s b) = Inr s' \<and> buffer (sv_write s') = enc_block wss
        \<and> length wss = length (nl_lines (buffer b))"
    if "lastBol b = 0" for b
  proof -
    obtain wss r' c' where served: "serve_all (default_serve (\<lambda>_. [])) (resolver (?s b), is_connected (?s b)) (nl_lines (buffer (sv_read (?s b))))
        = (wss, r', c')" by (metis prod_cases3)
    show ?thesis
      using requests_outcome [OF dflt.resolver_contract_axioms _ _ served] that
      by (fastforce simp: empty_buffer_def split: if_splits)
  qed
  show "ProcessRequests (\<lambda>_. []) default_resolver (?s \<lparr>buffer = ''MODULE-REPO'', lastBol = 0\<rparr>) = Inl AssertFailure"
    "ProcessRequests (\<lambda>_. []) default_resolver (?s \<lparr>buffer = [CHR '';'', NL], lastBol = 0\<rparr>) = Inl OutOfRange"
    using outcome [of "\<lparr>buffer = ''MODULE-REPO'', lastBol = 0\<rparr>"] outcome [of "\<lparr>buffer = [CHR '';'', NL], lastBol = 0\<rparr>"]
    by simp_all
  show "\<exists>s' wss. ProcessRequests (\<lambda>_. []) default_resolver (?s example_block) = Inr s'
      \<and> buffer (sv_write s') = enc_block wss \<and> length wss = 2"
    using outcome [of example_block] by (simp add: example_block_def numeral_2_eq_2)
qed

text \<open>A fault the client can cause, as a result of its own.\<close>

theorem empty_first_line_faults:
  assumes "readable (sv_read s)" and "\<not> IsAtEnd (sv_read s)" and "lastBol (sv_read s) = 0"
    and "next_line (sv_read s) = [] \<or> next_line (sv_read s) = [CONTINUE]"
  shows "ProcessRequests strerr vt s = Inl OutOfRange"
  by (rule bad_first_line_faults [OF assms])

theorem empty_first_line_faults_witness:
  "ProcessRequests (\<lambda>_. []) default_resolver (example_server \<lparr>buffer = [NL], lastBol = 0\<rparr> undefined) = Inl OutOfRange"
  by (rule empty_first_line_faults) (simp_all add: readable_def IsAtEnd_def next_line_def)

text \<open>A blank line inside a block is not ignored: with the default resolver it is
  answered with the error \<open>unrecognized ''\<close>, before and after the handshake.\<close>

theorem blank_line_answered:
  assumes "readable (sv_read s)" and "lines_of (sv_read s) = l1 # [] # rest" and "l1 \<noteq> []" and "l1 \<noteq> [CONTINUE]"
    and "holds_block [] (sv_write s)"
  shows "\<exists>s' w1 wss. ProcessRequests strerr default_resolver s = Inr s'
    \<and> holds_block (w1 # [''ERROR'', ''unrecognized '' @ [APOS, APOS]] # wss) (sv_write s')"
proof -
  have "\<not> IsAtEnd (sv_read s)" using assms(2) by (auto dest: lines_of_end)
  then have l1: "next_line (sv_read s) = l1" using lines_of_line [OF assms(1)] assms(2) by simp
  obtain w1 r1 c1 where step1: "default_serve strerr (resolver s, is_connected s) l1 = (w1, r1, c1)"
    by (metis prod_cases3)
  obtain wss r2 c2 where rest: "serve_all (default_serve strerr) (r1, c1) rest = (wss, r2, c2)"
    by (metis prod_cases3)
  have "default_serve strerr (r1, c1) [] = ([''ERROR'', ''unrecognized '' @ [APOS, APOS]], r1, c1)"
    by (simp add: lex_line_def decode_def complaint_def strip_cont_def default_err_def)
  then have "serve_all (default_serve strerr) (resolver s, is_connected s) (lines_of (sv_read s))
      = (w1 # [''ERROR'', ''unrecognized '' @ [APOS, APOS]] # wss, r2, c2)"
    using step1 rest by (simp add: assms(2) del: serve.simps)
  then show ?thesis
    using dflt.ProcessRequests_answers [OF assms(1) _ assms(5), of strerr _ r2 c2] assms(3,4)
    by (fastforce simp: dflt.abstract_replies_def l1)
qed

theorem blank_line_answered_witness:
  "\<exists>s' w1 wss. ProcessRequests (\<lambda>_. []) default_resolver
      (example_server \<lparr>buffer = ''MODULE-REPO ;'' @ [NL, NL], lastBol = 0\<rparr> undefined) = Inr s'
    \<and> holds_block (w1 # [''ERROR'', ''unrecognized '' @ [APOS, APOS]] # wss) (sv_write s')"
  by (rule blank_line_answered [of _ "''MODULE-REPO ;''" "[]"]) (simp_all add: readable_def lines_of_def)

text \<open>A server that reads a single line of any text, and of words.\<close>

lemma reads_text_served:
  assumes "resolver_contract vt conn req err" and "sv_read s = \<lparr>buffer = line @ [NL], lastBol = 0\<rparr>" and "NL \<notin> set line"
    and "holds_block [] (sv_write s)" and "line \<noteq> []" and "line \<noteq> [CONTINUE]"
    and "serve conn req err strerr (resolver s, is_connected s) line = (vs, r', c')"
  shows "\<exists>w. ProcessRequests strerr vt s = Inr (s\<lparr>direction := PROCESSING, sv_read := at_end (sv_read s),
      sv_write := w, resolver := r', is_connected := c'\<rparr>) \<and> holds_block [vs] w"
proof -
  have at: "readable (sv_read s)" "\<not> IsAtEnd (sv_read s)" using assms(2) by (simp_all add: readable_def IsAtEnd_def)
  have next_is: "next_line (sv_read s) = line" using assms(2) takeWhile_hit [OF assms(3), of "[]"] by (simp add: next_line_def)
  have "IsAtEnd (skip_line (sv_read s))" using assms(2) next_is by (simp add: skip_line_def IsAtEnd_def)
  then have "lines_of (sv_read s) = [line]" using lines_of_line [OF at] next_is by (simp add: lines_of_end)
  then show ?thesis
    using server_refines [OF assms(1) at(1) _ assms(4), of strerr "[vs]" r' c'] assms(5-7) next_is by simp
qed

definition reads_line :: "bytes list \<Rightarrow> 'r Server \<Rightarrow> bool" where
  "reads_line ws s \<longleftrightarrow> ws \<noteq> [] \<and> list_all ascii_word ws
     \<and> sv_read s = \<lparr>buffer = enc_line ws @ [NL], lastBol = 0\<rparr> \<and> buffer (sv_write s) = []"

lemma reads_line_served:
  assumes "resolver_contract vt conn req err" and "reads_line ws s"
    and "serve conn req err strerr (resolver s, is_connected s) (enc_line ws) = (vs, r', c')"
  shows "\<exists>w. ProcessRequests strerr vt s = Inr (s\<lparr>direction := PROCESSING, sv_read := at_end (sv_read s),
      sv_write := w, resolver := r', is_connected := c'\<rparr>) \<and> holds_block [vs] w"
proof -
  have "holds_block [] (sv_write s)" "enc_line ws \<noteq> []" "enc_line ws \<noteq> [CONTINUE]"
    using assms(2) last_enc_line [of ws] by (auto simp: reads_line_def holds_block_def)
  then show ?thesis
    using reads_text_served [OF assms(1) _ NL_enc_line _ _ _ assms(3)] assms(2) by (simp add: reads_line_def)
qed

lemma reads_line_lex:
  "reads_line ws s \<Longrightarrow> lex_line (enc_line ws) = Some ws \<and> strip_cont (enc_line ws) = enc_line ws"
  using lex_line_enc [of ws False] strip_cont_plain [of "enc_line ws" False] by (simp add: reads_line_def line_tail_def)

text \<open>An \<open>errno\<close> a resolver returns for a request reaches the client: the server answers
  with an error that quotes the request line and the text of the error, and a request of
  the right form that fails without one is called malformed.\<close>

theorem resolver_error_reported:
  assumes "resolver_contract vt conn req err" and "reads_line ws s" and "is_connected s"
    and "decode ws = Request q" and "req (resolver s) q = Fails e r'"
  shows "\<exists>s'. ProcessRequests strerr vt s = Inr s' \<and> is_connected s' \<and>
    holds_block [fst (err r' (if 0 < e then ''error processing '' @ [APOS] @ enc_line ws @ [APOS] @ '' '' @ strerr e
      else ''malformed '' @ [APOS] @ enc_line ws @ [APOS]))] (sv_write s')"
proof -
  let ?msg = "if 0 < e then ''error processing '' @ [APOS] @ enc_line ws @ [APOS] @ '' '' @ strerr e
      else ''malformed '' @ [APOS] @ enc_line ws @ [APOS]"
  have "serve conn req err strerr (resolver s, is_connected s) (enc_line ws) = (fst (err r' ?msg), snd (err r' ?msg), True)"
    using reads_line_lex [OF assms(2)] assms(3-5) by (auto simp: complaint_def split: prod.split)
  from reads_line_served [OF assms(1,2) this] show ?thesis by fastforce
qed

text \<open>A resolver that cannot give the repository.\<close>

definition no_repo :: "os Resolver_vt" where
  "no_repo = default_resolver\<lparr>vModuleRepoRequest := \<lambda>s. Inr (5, s)\<rparr>"

definition no_repo_req :: "os \<Rightarrow> request \<Rightarrow> os outcome" where
  "no_repo_req w q = (if q = Repo then Fails 5 w else default_req w q)"

lemma no_repo_contract: "resolver_contract no_repo default_conn no_repo_req default_err"
  using dflt.connect_law dflt.export_law dflt.import_law dflt.compiled_law dflt.translate_law dflt.invoke_law dflt.error_law
  by unfold_locales (simp_all add: no_repo_def no_repo_req_def obeys_def [of "Fails 5 _"])

theorem resolver_error_reported_witness:
  "\<exists>s'. ProcessRequests (\<lambda>e. ''I/O'') no_repo
      ((example_server \<lparr>buffer = enc_line [''MODULE-REPO''] @ [NL], lastBol = 0\<rparr> undefined)\<lparr>is_connected := True\<rparr>) = Inr s'
    \<and> is_connected s'
    \<and> holds_block [[''ERROR'', ''error processing '' @ [APOS] @ enc_line [''MODULE-REPO''] @ [APOS] @ '' I/O'']] (sv_write s')"
  using resolver_error_reported [OF no_repo_contract, of "[''MODULE-REPO'']"
      "(example_server \<lparr>buffer = enc_line [''MODULE-REPO''] @ [NL], lastBol = 0\<rparr> undefined)\<lparr>is_connected := True\<rparr>"
      Repo 5 undefined "\<lambda>e. ''I/O''"]
  by (simp add: reads_line_def ascii_def uchar_def decode_repo_line no_repo_req_def default_err_def example_server_def
      Server_new_def Server_PrepareToRead_def empty_buffer_def)

text \<open>A handshake happens once: a second HELLO on a connected server is refused, and
  changes neither the resolver nor the connection.\<close>

theorem second_hello_refused:
  assumes "reads_line (''HELLO'' # args) s" and "is_connected s"
  shows "\<exists>s'. ProcessRequests strerr default_resolver s = Inr s' \<and> is_connected s' \<and> resolver s' = resolver s
    \<and> holds_block [[''ERROR'', ''already connected '' @ [APOS] @ enc_line (''HELLO'' # args) @ [APOS]]] (sv_write s')"
proof -
  have "decode (''HELLO'' # args) = BadHello \<or> (\<exists>v a i. decode (''HELLO'' # args) = Hello v a i)"
    by (auto simp: decode_def decode_hello_def split: list.split option.split)
  then have "default_serve strerr (resolver s, is_connected s) (enc_line (''HELLO'' # args))
    = ([''ERROR'', ''already connected '' @ [APOS] @ enc_line (''HELLO'' # args) @ [APOS]], resolver s, True)"
    using reads_line_lex [OF assms(1)] assms(2) by (auto simp: complaint_def default_err_def)
  from reads_line_served [OF dflt.resolver_contract_axioms assms(1) this] show ?thesis by fastforce
qed

theorem second_hello_refused_witness:
  "\<exists>s'. ProcessRequests (\<lambda>_. []) default_resolver
      ((example_server \<lparr>buffer = enc_line [''HELLO'', ''1'', ''x''] @ [NL], lastBol = 0\<rparr> undefined)\<lparr>is_connected := True\<rparr>) = Inr s'
    \<and> is_connected s' \<and> resolver s' = undefined
    \<and> holds_block [[''ERROR'', ''already connected '' @ [APOS] @ enc_line [''HELLO'', ''1'', ''x''] @ [APOS]]] (sv_write s')"
  using second_hello_refused [of "[''1'', ''x'']"
      "(example_server \<lparr>buffer = enc_line [''HELLO'', ''1'', ''x''] @ [NL], lastBol = 0\<rparr> undefined)\<lparr>is_connected := True\<rparr>"]
  by (simp add: reads_line_def ascii_def uchar_def example_server_def Server_new_def Server_PrepareToRead_def empty_buffer_def)

text \<open>C37: the handshake with the default resolver, for every single line whose first word is
  HELLO, however it is quoted, spaced or continued (a line the lexer rejects, such as one
  with a byte from 128 up, has no words and is no HELLO): on a connected server it is refused;
  with a number of words other than three or four, or a version that is no number, it is
  malformed; a version above 1 is answered with a mismatch and leaves the server unconnected;
  and every other one, 0 included, connects it.\<close>

theorem hello_outcome:
  assumes "sv_read s = \<lparr>buffer = line @ [NL], lastBol = 0\<rparr>" and "NL \<notin> set line" and "buffer (sv_write s) = []"
    and "lex_line line = Some (''HELLO'' # args)"
    and "valid = ((length args = 2 \<or> length args = 3) \<and> ParseUnsigned (hd args) \<noteq> - 1)"
  shows "\<exists>s'. ProcessRequests strerr default_resolver s = Inr s' \<and> resolver s' = resolver s
    \<and> is_connected s' = (is_connected s \<or> valid \<and> ParseUnsigned (hd args) \<le> 1)
    \<and> holds_block
        [if is_connected s then [''ERROR'', ''already connected '' @ [APOS] @ strip_cont line @ [APOS]]
         else if \<not> valid then [''ERROR'', ''malformed '' @ [APOS] @ strip_cont line @ [APOS]]
         else if 1 < ParseUnsigned (hd args) then [''ERROR'', ''version mismatch'']
         else [''HELLO'', to_string 1, ''default'']] (sv_write s')"
proof -
  have "decode (''HELLO'' # args) = (if valid then Hello (ParseUnsigned (hd args)) (args ! 1) (if length args = 3 then args ! 2 else [])
      else BadHello)"
    by (auto simp: assms(5) decode_def decode_hello_def decode_number_def numeral_2_eq_2 numeral_3_eq_3 split: list.split)
  then have "default_serve strerr (resolver s, is_connected s) line
    = (if is_connected s then [''ERROR'', ''already connected '' @ [APOS] @ strip_cont line @ [APOS]]
       else if \<not> valid then [''ERROR'', ''malformed '' @ [APOS] @ strip_cont line @ [APOS]]
       else if 1 < ParseUnsigned (hd args) then [''ERROR'', ''version mismatch'']
       else [''HELLO'', to_string 1, ''default''],
      resolver s, is_connected s \<or> valid \<and> ParseUnsigned (hd args) \<le> 1)"
    using assms(4) by (auto simp: complaint_def default_err_def default_conn_def not_le)
  moreover have "line \<noteq> []" "line \<noteq> [CONTINUE]" using assms(4) by (auto simp: lex_line_def)
  moreover have "holds_block [] (sv_write s)" using assms(3) by (simp add: holds_block_def)
  ultimately show ?thesis
    using reads_text_served [OF dflt.resolver_contract_axioms assms(1,2)] by fastforce
qed

theorem hello_outcome_witness:
  "\<exists>s'. ProcessRequests (\<lambda>_. []) default_resolver
      (example_server \<lparr>buffer = ([TAB] @ ''HELLO '' @ [APOS, APOS] @ '' x'') @ [NL], lastBol = 0\<rparr> undefined) = Inr s'
    \<and> is_connected s' \<and> holds_block [[''HELLO'', to_string 1, ''default'']] (sv_write s')"
proof -
  have n: "ParseUnsigned [] = 0" by (simp add: ParseUnsigned_def strtoul_def c_str_def is_space_def is_digit_def dec_val_def uchar_def)
  have "lex_line ([TAB] @ ''HELLO '' @ [APOS, APOS] @ '' x'') = Some [''HELLO'', [], ''x'']" by code_simp
  from hello_outcome [OF _ _ _ this, of "example_server \<lparr>buffer = ([TAB] @ ''HELLO '' @ [APOS, APOS] @ '' x'') @ [NL], lastBol = 0\<rparr> undefined" True "\<lambda>_. []"]
  show ?thesis using n by (auto simp: example_server_def Server_new_def Server_PrepareToRead_def empty_buffer_def)
qed

section \<open>Names of compiled module interfaces\<close>

text \<open>C16: \<open>GetCMIName\<close> keeps every CMI inside the repository: for any header-unit name, that
  is a name beginning with a slash or with dot and slash, and for any module name without
  a slash, the file name is relative and none of its components is a dot-dot, so it cannot
  lead out of the repository directory.\<close>

theorem cmi_name_inside:
  assumes "n \<noteq> []" and "take 1 n = ''/'' \<or> take 2 n = ''./'' \<or> CHR ''/'' \<notin> set n"
  shows "\<exists>cmi. GetCMIName GetCMISuffix n = Inr cmi \<and> inside cmi"
proof (rule name_cases [OF assms(1)])
  fix m assume "n = CHR ''/'' # m"
  then show ?thesis by (simp add: GetCMIName_abs header_inside [unfolded append_Cons append_Nil])
next
  fix m assume "n = ''./'' @ m"
  then show ?thesis using GetCMIName_rel [of GetCMISuffix m] header_inside(2) [of m] by simp
next
  assume named: "named_module n"
  then have "CHR ''/'' \<notin> set n" using assms(2) by (cases n) (auto simp: named_module_def)
  then show ?thesis using named by (simp add: GetCMIName_module named_inside)
qed

theorem cmi_name_inside_witness:
  "\<exists>cmi. GetCMIName GetCMISuffix ''/usr/../../etc/x'' = Inr cmi \<and> inside cmi"
  by (rule cmi_name_inside) simp_all

text \<open>C17: different names have different CMI files: on the names the protocol allows, less
  those that already contain a \<open>,,\<close> directory or, for modules, a dash, the mapping is
  injective. In particular \<open>/here\<close> and \<open>./here\<close> are kept apart.\<close>

theorem cmi_names_distinct:
  assumes "clean_name m" and "clean_name n" and "GetCMIName GetCMISuffix m = GetCMIName GetCMISuffix n"
  shows "m = n"
proof -
  have nonempty: "m \<noteq> []" "n \<noteq> []" using assms by (auto simp: clean_name_def)
  obtain cmi where cmi: "GetCMIName GetCMISuffix m = Inr cmi" "GetCMIName GetCMISuffix n = Inr cmi"
    using GetCMIName_total [OF nonempty(1), of GetCMISuffix] assms(3) by auto
  then have "named_module m \<longleftrightarrow> named_module n"
    using cmi_has_sep [OF assms(1) cmi(1)] cmi_has_sep [OF assms(2) cmi(2)] by simp
  then show ?thesis
    using header_cmi_inject [OF assms(1,2) _ _ nonempty assms(3)] cmi assms(1,2) clean_named [of m]
      clean_named [of n] by (auto simp: GetCMIName_module intro: decolon_inject [OF sym])
qed

theorem cmi_names_distinct_witness:
  "GetCMIName GetCMISuffix ''/here'' \<noteq> GetCMIName GetCMISuffix ''./here''"
  using cmi_names_distinct [of "''/here''" "''./here''"] by (auto simp: clean_name_def IsDirSep_def)

text \<open>C25: the search loop of \<open>GetCMIName\<close> ends without reading or writing outside the
  string, and what it computes is, for both forms of a header unit's name and any suffix:
  after a leading slash, which becomes \<open>./\<close>, or a leading \<open>./\<close>, which becomes \<open>,/\<close>, every
  directory that is dot-dot becomes two commas and everything else is kept, the file name,
  even a dot-dot, included; then the suffix is appended.\<close>

theorem header_name_components:
  "(\<exists>r. GetCMIName sfx (CHR ''/'' # n) = Inr (''./'' @ r @ (case sfx of Some x \<Rightarrow> ''.'' @ x | None \<Rightarrow> []))
      \<and> comps r = map (\<lambda>d. if d = ''..'' then '',,'' else d) (butlast (comps n)) @ [last (comps n)])
   \<and> (\<exists>r. GetCMIName sfx (''./'' @ n) = Inr ('',/'' @ r @ (case sfx of Some x \<Rightarrow> ''.'' @ x | None \<Rightarrow> []))
      \<and> comps r = map (\<lambda>d. if d = ''..'' then '',,'' else d) (butlast (comps n)) @ [last (comps n)])"
  using GetCMIName_abs [of sfx n] GetCMIName_rel [of sfx n]
  by (simp add: suffix_bytes_def comps_dots undot_rest_True undot_dirs_def undot_def)

text \<open>An empty name, which the server never passes on, would make \<open>GetCMIName\<close> call
  \<open>front ()\<close> on an empty string; every other name has a result.\<close>

theorem GetCMIName_defined_iff:
  "(\<exists>cmi. GetCMIName sfx n = Inr cmi) \<longleftrightarrow> n \<noteq> []"
  using GetCMIName_total [of n sfx] by (auto simp: GetCMIName_def IsAbsPath_def IsDirSep_def c_str_def)

text \<open>C33: the default \<open>IncludeTranslateRequest\<close> answers with the CMI's name exactly when the
  repository directory can be opened and has that file as a regular file, answers FALSE
  otherwise, and in every case leaves no descriptor open.\<close>

theorem include_translate_probe:
  assumes "include \<noteq> []"
  shows "\<exists>cmi. GetCMIName GetCMISuffix include = Inr cmi
    \<and> Resolver_IncludeTranslateRequest (GetCMIName GetCMISuffix) s flags include
      = Inr (0, if 0 \<le> os_open (resolver s)
                   \<and> (\<exists>m. os_fstatat (resolver s) (os_open (resolver s)) (c_str cmi) = Some m \<and> S_ISREG m)
                then PathnameResponse_string cmi s else BoolResponse False s)"
  using IncludeTranslate_eq [OF assms, of s flags] cmi_of_eq [OF assms]
  by (auto simp: cmi_present_def split: option.split)

theorem include_translate_probe_witness:
  "\<exists>cmi. GetCMIName GetCMISuffix ''./a.h'' = Inr cmi
    \<and> Resolver_IncludeTranslateRequest (GetCMIName GetCMISuffix)
        (example_server empty_buffer \<lparr>os_open = 5, os_fstatat = \<lambda>_ _. Some 0x81A4, open_fds = [0, 1, 2]\<rparr>) 0 ''./a.h''
      = Inr (0, PathnameResponse_string cmi
          (example_server empty_buffer \<lparr>os_open = 5, os_fstatat = \<lambda>_ _. Some 0x81A4, open_fds = [0, 1, 2]\<rparr>))"
  using include_translate_probe [of "''./a.h''"
      "example_server empty_buffer \<lparr>os_open = 5, os_fstatat = \<lambda>_ _. Some 0x81A4, open_fds = [0, 1, 2]\<rparr>" 0]
  by (simp add: S_ISREG_def)

text \<open>The variant for systems without \<open>fstatat\<close> joins its two tests with \<open>||\<close> where
  the other joins them with \<open>&&\<close>: it translates a file that exists but is not regular, and
  when the file does not exist its answer depends on uninitialised memory.\<close>

theorem include_translate_stat_differs:
  assumes "GetCMIName GetCMISuffix include = Inr cmi" and "stat (c_str (REPO_DIR @ ''/'' @ cmi)) = Some m"
    and "missing (c_str (REPO_DIR @ ''/'' @ cmi)) = None"
  shows "IncludeTranslate_stat stat g (GetCMIName GetCMISuffix) s flags include = Inr (0, PathnameResponse_string cmi s)
    \<and> IncludeTranslate_stat missing 0x8000 (GetCMIName GetCMISuffix) s flags include = Inr (0, PathnameResponse_string cmi s)
    \<and> IncludeTranslate_stat missing 0 (GetCMIName GetCMISuffix) s flags include = Inr (0, BoolResponse False s)"
  using assms by (simp add: IncludeTranslate_stat_def S_ISREG_def Let_def)

theorem include_translate_stat_differs_witness:
  "\<exists>cmi. IncludeTranslate_stat (\<lambda>_. Some 0x4000) 0 (GetCMIName GetCMISuffix) (example_server empty_buffer undefined) 0 ''a'' = Inr (0, PathnameResponse_string cmi (example_server empty_buffer undefined))
    \<and> IncludeTranslate_stat (\<lambda>_. None) 0x8000 (GetCMIName GetCMISuffix) (example_server empty_buffer undefined) 0 ''a'' = Inr (0, PathnameResponse_string cmi (example_server empty_buffer undefined))
    \<and> IncludeTranslate_stat (\<lambda>_. None) 0 (GetCMIName GetCMISuffix) (example_server empty_buffer undefined) 0 ''a'' = Inr (0, BoolResponse False (example_server empty_buffer undefined))"
proof -
  obtain cmi where "GetCMIName GetCMISuffix ''a'' = Inr cmi" using GetCMIName_total [of "''a''"] by auto
  from include_translate_stat_differs [OF this, where stat = "\<lambda>_. Some 0x4000" and m = "0x4000"
      and missing = "\<lambda>_. None" and g = 0 and flags = 0 and s = "example_server empty_buffer undefined"] show ?thesis by auto
qed

end
