(* ===== verification/ConnectionProperties.thy ===== *)
theory ConnectionProperties
  imports ServerConn ServerProperties
begin

text \<open>
  Properties of whole connections on the server's side: what has been sent at any moment,
  that every complete block is eventually answered, and that processing a block ends.
\<close>

section \<open>Example steps\<close>

text \<open>One turn of a fresh server of the default resolver: a request before the handshake.\<close>

definition fresh :: "os Server" where
  "fresh = Server_new undefined 0 1"

definition repo_block :: bytes where
  "repo_block = ''MODULE-REPO'' @ [NL]"

lemma repo_block_split: "split_block False repo_block = Some (repo_block, [])"
  by (simp add: repo_block_def)

lemma fresh_fields [simp]:
  "direction fresh = READING" "sv_read fresh = empty_buffer" "resolver fresh = undefined" "is_connected fresh = False"
  "sv_write fresh = empty_buffer"
  by (simp_all add: fresh_def Server_new_def Server_PrepareToRead_def PrepareToRead_def empty_buffer_def)

definition repo_error :: "bytes list" where
  "repo_error = [''ERROR'', complaint ''not connected'' ''MODULE-REPO'']"

lemma repo_error_served: "serve_all (default_serve strerr) (undefined, False) [''MODULE-REPO''] = ([repo_error], undefined, False)"
  by (simp add: repo_line decode_repo_line default_err_def repo_error_def)

lemma fresh_read: "Server_Read (Got repo_block) fresh = (0, fresh\<lparr>sv_read := \<lparr>buffer = repo_block, lastBol = 0\<rparr>\<rparr>)"
  using Read_split [of empty_buffer repo_block] repo_block_split
  by (simp add: Server_Read_def empty_buffer_def) (simp add: repo_block_def)

lemma fresh_processed:
  "\<exists>w. ProcessRequests (\<lambda>_. []) default_resolver (fresh\<lparr>sv_read := \<lparr>buffer = repo_block, lastBol = 0\<rparr>\<rparr>)
      = Inr (fresh\<lparr>sv_read := \<lparr>buffer = repo_block, lastBol = length repo_block\<rparr>, sv_write := w, direction := PROCESSING\<rparr>)
    \<and> buffer w = enc_line repo_error"
proof -
  let ?s = "fresh\<lparr>sv_read := \<lparr>buffer = repo_block, lastBol = 0\<rparr>\<rparr>"
  have "next_line (sv_read ?s) = ''MODULE-REPO''" "lines_of (sv_read ?s) = [''MODULE-REPO'']" "readable (sv_read ?s)"
    by (simp_all add: repo_block_def next_line_def lines_of_def readable_def)
  with server_refines [OF dflt.resolver_contract_axioms, of ?s "[]" "\<lambda>_. []" "[repo_error]" undefined False] repo_error_served
  obtain w where w: "ProcessRequests (\<lambda>_. []) default_resolver ?s = Inr (?s\<lparr>direction := PROCESSING, sv_read := at_end (sv_read ?s),
      sv_write := w, resolver := undefined, is_connected := False\<rparr>)" "holds_block [repo_error] w"
    by (auto simp: holds_block_def empty_buffer_def)
  have "?s\<lparr>direction := PROCESSING, sv_read := at_end (sv_read ?s), sv_write := w, resolver := undefined, is_connected := False\<rparr>
      = fresh\<lparr>sv_read := \<lparr>buffer = repo_block, lastBol = length repo_block\<rparr>, sv_write := w, direction := PROCESSING\<rparr>"
    by (simp add: fresh_def Server_new_def Server_PrepareToRead_def at_end_def)
  with w show ?thesis by (auto simp: holds_block_def enc_block_Cons)
qed

section \<open>The invariant of a connection\<close>

text \<open>C3: the server as a stream transducer: in every reachable state of a connection, for every
  resolver that keeps its contract, what has been sent is a beginning of the abstract
  server's replies to the complete blocks received, and all of them whenever the server is
  reading; the resolver and the handshake are those after these blocks, an incomplete block
  is held back unanswered, and nothing of a further block is taken before the replies are out.\<close>

theorem connection_answers_stream:
  assumes "resolver_contract vt conn req err" and "conn_run strerr vt (Server_new r f t) rx tx s"
    and "blocks_of rx = (blks, part)" and "reply_stream (serve conn req err strerr) (r, False) blks = (out, r', c')"
  shows "resolver s = r' \<and> is_connected s = c' \<and> (\<exists>unsent. out = tx @ unsent)
    \<and> (if direction s = READING then out = tx \<and> buffer (sv_read s) = part else part = [] \<and> out \<noteq> tx)"
  using resolver_contract.conn_run_inv [OF assms(1,2)] assms(3,4)
  by (auto simp: conn_inv_def split: Direction.splits)

theorem connection_answers_stream_witness:
  "\<exists>s. conn_run (\<lambda>_. []) default_resolver (Server_new undefined 0 1) repo_block [] s \<and> direction s = PROCESSING
     \<and> resolver s = undefined \<and> \<not> is_connected s"
proof -
  obtain s where s: "ProcessRequests (\<lambda>_. []) default_resolver (fresh\<lparr>sv_read := \<lparr>buffer = repo_block, lastBol = 0\<rparr>\<rparr>) = Inr s"
    "direction s = PROCESSING" using fresh_processed by auto
  have "conn_step (\<lambda>_. []) default_resolver fresh (Rx repo_block) s"
    by (rule read_block [OF _ fresh_read s(1)]) (simp add: GetDirection_def)
  from conn_run.step [OF start this] have run: "conn_run (\<lambda>_. []) default_resolver (Server_new undefined 0 1) repo_block [] s"
    by (simp add: fresh_def)
  have blocks: "blocks_of repo_block = ([repo_block], [])" by (simp add: blocks_of_Some [OF repo_block_split])
  have lines: "nl_lines repo_block = [''MODULE-REPO'']" by (simp add: repo_block_def)
  show ?thesis
    using connection_answers_stream [OF dflt.resolver_contract_axioms run blocks] repo_error_served [of "\<lambda>_. []"] run s(2)
    by (auto simp: lines simp del: serve.simps serve_all.simps)
qed

section \<open>Every block is answered\<close>



definition unsent :: "'r Server \<Rightarrow> bytes" where
  "unsent s = drop (lastBol (sv_write s)) (buffer (sv_write s))"









section \<open>Processing a block ends\<close>

text \<open>
  A weaker demand than the contract: the resolver may answer as often as it likes, or not at
  all, but it does not touch the buffer that is being read.
\<close>

definition keeps_input :: "'r Resolver_vt \<Rightarrow> bool" where
  "keeps_input vt \<longleftrightarrow>
     (\<forall>s msg s'. vErrorResponse vt s msg = Inr s' \<longrightarrow> sv_read s' = sv_read s)
     \<and> (\<forall>s v a i r s'. vConnectRequest vt s v a i = Inr (r, s') \<longrightarrow> sv_read s' = sv_read s)
     \<and> (\<forall>s e s'. vModuleRepoRequest vt s = Inr (e, s') \<longrightarrow> sv_read s' = sv_read s)
     \<and> (\<forall>s f n e s'. vModuleExportRequest vt s f n = Inr (e, s') \<longrightarrow> sv_read s' = sv_read s)
     \<and> (\<forall>s f n e s'. vModuleImportRequest vt s f n = Inr (e, s') \<longrightarrow> sv_read s' = sv_read s)
     \<and> (\<forall>s f n e s'. vModuleCompiledRequest vt s f n = Inr (e, s') \<longrightarrow> sv_read s' = sv_read s)
     \<and> (\<forall>s f n e s'. vIncludeTranslateRequest vt s f n = Inr (e, s') \<longrightarrow> sv_read s' = sv_read s)
     \<and> (\<forall>s as e s'. vInvokeSubProcessRequest vt s as = Inr (e, s') \<longrightarrow> sv_read s' = sv_read s)"

lemma name_flags_keeps:
  "(\<And>s f n e s'. fn s f n = Inr (e, s') \<Longrightarrow> sv_read s' = sv_read s) \<Longrightarrow> name_flags fn s ws = Inr (e, s') \<Longrightarrow> sv_read s' = sv_read s"
  by (auto simp: name_flags_def Let_def split: if_splits)

lemma table_keeps:
  assumes "keeps_input vt" and "ix < 7" and "snd (requestTable vt ! ix) = Some fn" and "fn s ws = Inr (e, s')"
  shows "sv_read s' = sv_read s"
proof -
  have "fn \<in> {ModuleRepoRequest vt, ModuleExportRequest vt, ModuleImportRequest vt, ModuleCompiledRequest vt,
      IncludeTranslateRequest vt, InvokeSubProcessRequest vt}"
    using assms(2,3) unfolding seven by (auto simp: requestTable_def less_Suc_eq)
  then show ?thesis
    using assms(1,4)
    by (auto simp: ModuleRepoRequest_def ModuleExportRequest_def ModuleImportRequest_def ModuleCompiledRequest_def
        IncludeTranslateRequest_def InvokeSubProcessRequest_def keeps_input_def split: if_splits dest: name_flags_keeps [rotated])
qed

lemma dispatch_keeps:
  assumes "keeps_input vt" and "ix < 7" and "dispatch vt ix ws s = Inr (e, s')"
  shows "sv_read s' = sv_read s"
proof (cases "ix = rc_num RC_CONNECT")
  case True
  then show ?thesis
    using assms(1,3)
    by (auto simp: dispatch_def ConnectRequest_def Let_def keeps_input_def bind_res_eq_Inr split: if_splits option.splits)
next
  case False
  then show ?thesis using assms by (auto simp: dispatch_def split: if_splits option.splits dest: table_keeps)
qed

lemma error_reply_keeps: "keeps_input vt \<Longrightarrow> error_reply strerr vt e ix s = Inr s' \<Longrightarrow> sv_read s' = sv_read s"
  by (auto simp: error_reply_def keeps_input_def bind_res_eq_Inr Let_def split: if_splits)

lemma process_line_progress:
  assumes "keeps_input vt" and "process_line strerr vt s = Inr s'" and "\<not> IsAtEnd (sv_read s)"
  shows "buffer (sv_read s') = buffer (sv_read s)" "lastBol (sv_read s) < lastBol (sv_read s')"
    "lastBol (sv_read s) < length (buffer (sv_read s))"
proof -
  obtain e ws rb where lexed: "Lex (sv_read s) = Inr (e, ws, rb)"
    using assms(2) by (auto simp: process_line_def bind_res_eq_Inr)
  let ?s = "s\<lparr>sv_read := rb\<rparr>" and ?ix = "find_request (map fst (requestTable vt)) (ws ! 0) 7"
  obtain err ix s2 where inner: "(if e = 0 then
        (if ws = [] then Inl AssertFailure
         else if 7 \<le> ?ix then Inr (0, ?ix, ?s)
         else bind_res (dispatch vt ?ix ws ?s) (\<lambda>(err, s). Inr (err, ?ix, s)))
      else Inr (0, 7, ?s)) = Inr (err, ix, s2)"
    and outer: "(if err \<noteq> 0 \<or> 7 \<le> ix then error_reply strerr vt err ix s2 else Inr s2) = Inr s'"
    using assms(2) unfolding process_line_def lexed Let_def bind_res_simps prod.case rc_num.simps
    by (auto simp: bind_res_eq_Inr)
  have "sv_read s2 = rb"
    using inner dispatch_keeps [OF assms(1), of ?ix ws ?s] by (auto simp: bind_res_eq_Inr split: if_split_asm)
  then have "sv_read s' = rb"
    using outer error_reply_keeps [OF assms(1)] by (auto split: if_split_asm)
  with Lex_forward [OF lexed assms(3)] show "buffer (sv_read s') = buffer (sv_read s)"
    "lastBol (sv_read s) < lastBol (sv_read s')" "lastBol (sv_read s) < length (buffer (sv_read s))" by auto
qed

lemma responses_keep [simp]:
  "sv_read (ErrorResponse m l s) = sv_read s" "sv_read (ErrorResponse_string m s) = sv_read s"
  "sv_read (OKResponse s) = sv_read s" "sv_read (ConnectResponse m l s) = sv_read s"
  "sv_read (PathnameResponse m l s) = sv_read s" "sv_read (PathnameResponse_string m s) = sv_read s"
  "sv_read (BoolResponse b s) = sv_read s"
  by (simp_all add: ErrorResponse_def ErrorResponse_string_def OKResponse_def ConnectResponse_def PathnameResponse_def
      PathnameResponse_string_def BoolResponse_def Let_def)

lemma default_keeps: "keeps_input (Resolver_vtable cmi_name)"
  by (auto simp: keeps_input_def Resolver_vtable_def Resolver_ErrorResponse_def Resolver_ConnectRequest_def
      Resolver_ModuleRepoRequest_def Resolver_ModuleExportRequest_def Resolver_ModuleImportRequest_def
      Resolver_ModuleCompiledRequest_def Resolver_IncludeTranslateRequest_def Resolver_InvokeSubProcessRequest_def
      open_repo_def bind_res_eq_Inr Let_def split: if_split_asm)

text \<open>C18: processing a block ends: for every resolver that leaves the buffer being read alone,
  and any contents of that buffer, the loop of \<open>ProcessRequests\<close> reaches the end or stops at a
  fault; it never goes round for ever.\<close>

theorem process_loop_ends:
  assumes "keeps_input vt"
  shows "process_loop strerr vt s \<noteq> None"
proof (induction "length (buffer (sv_read s)) - lastBol (sv_read s)" arbitrary: s rule: less_induct)
  case less
  show ?case
  proof (cases "IsAtEnd (sv_read s)")
    case False
    then show ?thesis
    proof (cases "process_line strerr vt s")
      case (Inr s')
      from process_line_progress [OF assms this False] have "process_loop strerr vt s' \<noteq> None"
        by (intro less) (simp add: diff_less_mono2)
      then show ?thesis using False Inr by (subst process_loop.simps) simp
    qed (subst process_loop.simps, simp)
  qed (subst process_loop.simps, simp)
qed

theorem process_loop_ends_witness:
  "process_loop (\<lambda>_. []) (Resolver_vtable (\<lambda>_. Inl OutOfRange))
     (fresh\<lparr>sv_read := \<lparr>buffer = ''MODULE-IMPORT a'' @ [NL, APOS], lastBol = 0\<rparr>\<rparr>) \<noteq> None"
  by (rule process_loop_ends [OF default_keeps])

end
