(* ===== verification/LinkProperties.thy ===== *)
theory LinkProperties
  imports LinkFaults ConnectionProperties
begin

text \<open>
  Properties of a client and a server that are joined by byte channels: an exchange always
  ends, within a bounded number of steps, with the packets of a direct connection, and so
  does a whole session; and an exchange that breaks is all or nothing.
\<close>

section \<open>One exchange\<close>

text \<open>C8: an exchange over two byte channels ends: for every resolver that keeps its contract and
  every interleaving of client and server, with any sizes of the pieces and any number of
  attempts to be repeated, at most five steps more than twice the characters of request and
  reply get anything done; until the exchange returns there is always such a step, so
  nothing deadlocks; and when it returns, \<open>Uncork\<close> gives one packet for each queued request,
  those of the abstract server, and the server awaits the next block. The lines queued are
  of any text, without a newline or a semicolon at the end.\<close>

theorem link_exchange_ends:
  assumes "resolver_contract vt conn req err" and "channel c = Fds from_fd to_fd" and "queued reqs c" and "reqs \<noteq> []"
    and "RC_HWM \<notin> snd ` set reqs" and "awaiting s"
    and "serve_all (serve conn req err strerr) (resolver s, is_connected s) (map fst reqs) = (wss, r', c')"
    and "link_run strerr vt (link_start c s) n x"
  shows "n \<le> 2 * length (buffer (cl_write c)) + 2 * length (enc_block wss) + 5
    \<and> (if lk_phase x = Sending \<or> lk_phase x = Receiving then \<exists>y. link_step strerr vt x True y
       else (\<exists>d. Uncork strerr vt' (with_answers x c) = Inr (packets wss (map snd reqs), d) \<and> idle d)
         \<and> awaiting (lk_server x) \<and> resolver (lk_server x) = r' \<and> is_connected (lk_server x) = c')"
proof -
  have held: "holds_lines (map fst reqs) (cl_write c)" "map fst reqs \<noteq> []" "list_all plain_line (map fst reqs)"
    "buffer (cl_write c) = text_block (map fst reqs)"
    using assms(3,4) by (auto simp: queued_def holds_lines_def)
  note link = resolver_contract.block_link [OF assms(1) held(1,2) assms(6,7,8)]
  have "n \<le> 2 * length (buffer (cl_write c)) + 2 * length (enc_block wss) + 5"
    using resolver_contract.link_bound [OF assms(1) link] held(4) by simp
  moreover have "\<exists>y. link_step strerr vt x True y" if "lk_phase x = Sending \<or> lk_phase x = Receiving"
    using resolver_contract.link_progress [OF assms(1) held(2,3) refl link] that by fastforce
  moreover have "(\<exists>d. Uncork strerr vt' (with_answers x c) = Inr (packets wss (map snd reqs), d) \<and> idle d)
      \<and> awaiting (lk_server x) \<and> resolver (lk_server x) = r' \<and> is_connected (lk_server x) = c'"
    if "lk_phase x = Returned e" for e
    using resolver_contract.uncork_link [OF assms(1-8) that]
      resolver_contract.block_returned(4-6) [OF assms(1) held(1,2) assms(6,7,8) that assms(2)] by blast
  ultimately show ?thesis by (cases "lk_phase x") auto
qed

text \<open>A client on descriptors that has queued one request, and a new server.\<close>

definition link_client :: "os Client" where
  "link_client = Client_fds 0 1 [] []"

lemma link_client_fields [simp]: "channel link_client = Fds 0 1" "idle link_client" "cl_connected link_client = False"
  "corked link_client = []" "buffer (cl_write link_client) = []"
  by (simp_all add: link_client_def Client_fds_def idle_def empty_buffer_def)

definition link_queue :: "os Client" where
  "link_queue = (Cork link_client)\<lparr>cl_write := put_call CallRepo (cl_write link_client),
     corked := corked (Cork link_client) @ [cork_char (rc_word RC_MODULE_REPO)]\<rparr>"

lemma call_line_repo: "call_line CallRepo = ''MODULE-REPO''"
  by (simp add: enc_line_def enc_word_def safe_word_def needs_quote_def uchar_def)

lemma link_queue_queued: "queued [(''MODULE-REPO'', RC_MODULE_REPO)] link_queue" "channel link_queue = Fds 0 1"
proof -
  have "holds_lines [] (cl_write link_client)" by simp
  from put_call_holds [OF this, of CallRepo] show "queued [(''MODULE-REPO'', RC_MODULE_REPO)] link_queue"
    unfolding append_Nil call_line_repo by (simp add: queued_def link_queue_def Cork_def del: put_call.simps)
qed (simp add: link_queue_def Cork_def)

theorem link_exchange_ends_witness:
  "\<exists>n x. link_run (\<lambda>_. []) default_resolver (link_start link_queue fresh) n x
     \<and> n \<le> 2 * length (buffer (cl_write link_queue)) + 2 * length (enc_line repo_error) + 5
     \<and> (\<exists>d. Uncork (\<lambda>_. []) default_resolver (with_answers x link_queue)
          = Inr ([reply_packet RC_MODULE_REPO False (enc_line repo_error)], d) \<and> idle d)"
proof -
  have at: "awaiting fresh" "resolver fresh = undefined" "is_connected fresh = False" by (simp_all add: fresh_def)
  have held: "holds_lines [''MODULE-REPO''] (cl_write link_queue)" using link_queue_queued(1) by (simp add: queued_def)
  obtain n x e where run: "link_run (\<lambda>_. []) default_resolver (link_start link_queue fresh) n x" "lk_phase x = Returned e"
    using resolver_contract.run_completes [OF dflt.resolver_contract_axioms held list.distinct(2) at(1) link_run.start] by blast
  have "serve_all (default_serve (\<lambda>_. [])) (resolver fresh, is_connected fresh)
      (map fst [(''MODULE-REPO'', RC_MODULE_REPO)]) = ([repo_error], undefined, False)"
    using repo_error_served [of "\<lambda>_. []"] at by (simp del: serve.simps serve_all.simps)
  from link_exchange_ends [OF dflt.resolver_contract_axioms link_queue_queued(2,1) list.distinct(2) _ at(1) this run(1), of default_resolver]
  show ?thesis using run by (auto simp: packets_def enc_block_Cons)
qed

section \<open>Sessions\<close>

text \<open>C10: a session over byte channels is a session over a direct connection: for every resolver
  that keeps the contract and whose \<open>WaitUntilReady\<close> leaves it as it is, and any sequence of
  the seven requests, each of one line (which only an \<open>InvokeSubProcess\<close> can fail to be: no
  newline in an argument, no semicolon at the end), the session over the channels can take
  place, and however its parts interleave it gives the packets that \<open>make_calls\<close> gives for a
  client directly connected to a server in the same state, and leaves resolver, handshake
  and client as that does.\<close>

theorem link_session_as_direct:
  assumes "direct_contract vt conn req err (\<lambda>r. r)" and "channel c = Fds from_fd to_fd" and "idle c" and "awaiting s"
    and "linked s0 c0" and "idle c0" and "resolver s0 = resolver s" and "is_connected s0 = is_connected s"
    and "cl_connected c0 = cl_connected c" and "list_all one_line qs"
  shows "\<exists>ps d0 s1. make_calls strerr vt qs c0 = Inr (ps, d0) \<and> linked s1 d0 \<and> idle d0
    \<and> (\<exists>d s'. link_calls strerr vt qs c s ps d s')
    \<and> (\<forall>ps' d s'. link_calls strerr vt qs c s ps' d s'
         \<longrightarrow> ps' = ps \<and> resolver s' = resolver s1 \<and> is_connected s' = is_connected s1 \<and> awaiting s'
           \<and> cl_connected d = cl_connected d0 \<and> idle d \<and> channel d = channel c)"
proof -
  have rc: "resolver_contract vt conn req err" using assms(1) by (simp add: direct_contract_def)
  obtain wss r' c' where served: "serve_all (serve conn req err strerr) (resolver s, is_connected s) (call_lines qs) = (wss, r', c')"
    by (metis prod_cases3)
  then have "serve_all (serve conn req err strerr) (resolver s0, is_connected s0) (call_lines qs) = (wss, r', c')"
    using assms(7,8) by simp
  from direct_contract.make_calls_linked [OF assms(1) refl assms(5,6,10) this] obtain s1 d0 where
    "make_calls strerr vt qs c0 = Inr (packets wss (map call_code qs), d0)" "linked s1 d0" "idle d0" "resolver s1 = r'"
    "is_connected s1 = c'" "cl_connected d0 = (cl_connected c0 \<or> connects (packets wss (map call_code qs)))" by blast
  moreover have "ps = packets wss (map call_code qs) \<and> channel d = channel c \<and> idle d \<and> awaiting s' \<and> resolver s' = r'
      \<and> is_connected s' = c' \<and> cl_connected d = (cl_connected c \<or> connects ps)" if "link_calls strerr vt qs c s ps d s'" for ps d s'
    by (rule resolver_contract.link_calls_packets [OF rc that assms(2-4,10) served])
  moreover obtain ps d s' where "link_calls strerr vt qs c s ps d s'"
    using resolver_contract.link_calls_exist [OF rc assms(2-4,10)] by blast
  ultimately show ?thesis using assms(9) by (intro exI [of _ "packets wss (map call_code qs)"] exI [of _ d0] exI [of _ s1]) metis
qed

theorem link_session_as_direct_witness:
  "\<exists>ps d0 d s'. make_calls (\<lambda>_. []) default_resolver [CallRepo, CallConnect ''gcc'' [], CallInvoke [''cc'', ''-o=x'']] (Client_direct fresh) = Inr (ps, d0)
     \<and> link_calls (\<lambda>_. []) default_resolver [CallRepo, CallConnect ''gcc'' [], CallInvoke [''cc'', ''-o=x'']] link_client fresh ps d s'"
proof -
  have "awaiting fresh" by (simp add: fresh_def)
  moreover have "linked fresh (Client_direct fresh)" "idle (Client_direct fresh)" "cl_connected (Client_direct fresh) = False"
    by (simp_all add: linked_def idle_def Client_direct_def empty_buffer_def)
  moreover have "list_all one_line [CallRepo, CallConnect ''gcc'' [], CallInvoke [''cc'', ''-o=x'']]" by code_simp
  ultimately show ?thesis
    using link_session_as_direct [OF dflt.direct_contract_axioms link_client_fields(1,2), of fresh fresh "Client_direct fresh"
        "[CallRepo, CallConnect ''gcc'' [], CallInvoke [''cc'', ''-o=x'']]" "\<lambda>_. []"] by auto
qed

section \<open>A connection that breaks\<close>

text \<open>C11: a connection that breaks never gives a wrong packet: for every resolver that keeps its
  contract, if calls of either side may fail for good or report the end of the stream at any
  moment, in any interleaving, then the server is at all times where it was before the batch
  or where the batch takes it, and still before it while any of the batch is unsent. If the
  exchange of the client returns, \<open>Uncork\<close> gives either the packets of the abstract server for
  the whole batch, which has then been served, or one error packet for the call that failed;
  in both cases the queue and the message are gone, and only a packet received connects the client.\<close>

theorem broken_exchange_atomic:
  assumes "resolver_contract vt conn req err" and "channel c = Fds from_fd to_fd" and "queued reqs c" and "reqs \<noteq> []"
    and "RC_HWM \<notin> snd ` set reqs" and "awaiting s"
    and "serve_all (serve conn req err strerr) (resolver s, is_connected s) (map fst reqs) = (wss, r', c')"
    and "fault_run strerr vt (link_start c s, False) (x, gone)"
    and "st = (resolver (lk_server x), is_connected (lk_server x))"
  shows "st \<in> {(resolver s, is_connected s), (r', c')}
    \<and> (length (lk_sent x) \<le> length (buffer (cl_write c)) \<longrightarrow> st = (resolver s, is_connected s))
    \<and> (lk_phase x = Returned e \<longrightarrow>
        (\<exists>d. Uncork strerr vt' (with_answers x c)
            = Inr (if e = 0 then packets wss (map snd reqs) else [CommunicationError strerr e], d) \<and> idle d
          \<and> cl_connected d = (cl_connected c \<or> e = 0 \<and> connects (packets wss (map snd reqs))))
        \<and> (e = 0 \<longrightarrow> st = (r', c')))"
proof -
  have held: "map fst reqs \<noteq> []" "list_all plain_line (map fst reqs)" "buffer (cl_write c) = text_block (map fst reqs)"
    using assms(3,4) by (auto simp: queued_def holds_lines_def)
  note ex = resolver_contract.block_exchanges [OF assms(1) held(1,2) assms(7), folded held(3)]
  note f = resolver_contract.fault_server [OF assms(1) ex resolver_contract.fault_run_inv [OF assms(1) ex assms(6,8)], folded assms(9)]
  show ?thesis
    using f resolver_contract.uncork_fault [OF assms(1-8), of e vt'] by auto
qed

theorem broken_exchange_atomic_witness:
  "\<exists>x d. fault_run (\<lambda>_. []) default_resolver (link_start link_queue fresh, False) (x, False) \<and> lk_phase x = Returned 32
     \<and> Uncork (\<lambda>_. []) default_resolver (with_answers x link_queue) = Inr ([CommunicationError (\<lambda>_. []) 32], d)
     \<and> is_connected (lk_server x) = False"
proof -
  have at: "awaiting fresh" "resolver fresh = undefined" "is_connected fresh = False" by (simp_all add: fresh_def)
  obtain e out w where w: "Write (WriteErr 32) (lk_write (link_start link_queue fresh)) = (e, out, w)" by (metis prod_cases3)
  have "hard 32" "lk_phase (link_start link_queue fresh) = Sending" by (simp_all add: hard_def link_start_def)
  from fault_run.step [OF fault_run.start send_fails [OF this(2,1) w]] obtain x where
    x: "fault_run (\<lambda>_. []) default_resolver (link_start link_queue fresh, False) (x, False)" "lk_phase x = Returned 32"
    using hard_write_result [OF \<open>hard 32\<close> w] \<open>hard 32\<close> by fastforce
  have "serve_all (default_serve (\<lambda>_. [])) (resolver fresh, is_connected fresh)
      (map fst [(''MODULE-REPO'', RC_MODULE_REPO)]) = ([repo_error], undefined, False)"
    using repo_error_served [of "\<lambda>_. []"] at by (simp del: serve.simps serve_all.simps)
  from broken_exchange_atomic [OF dflt.resolver_contract_axioms link_queue_queued(2,1) list.distinct(2) _ at(1) this x(1) refl, of 32 default_resolver]
  show ?thesis using x at by auto
qed

end
