(* ===== verification/ClientProperties.thy ===== *)
theory ClientProperties
  imports ClientCalls ServerProperties
begin

text \<open>
  What the client guarantees against any peer, and where it departs from its
  documentation. The first part evaluates requests and replies of the default resolver for
  the conversations of the root theory.
\<close>

section \<open>Auxiliary facts\<close>

lemma lex_line_words [simp]:
  "ws \<noteq> [] \<Longrightarrow> lex_line (enc_line ws) = (if list_all ascii_word ws then Some ws else None)"
  using lex_line_enc [of ws False] by simp

lemma safe_ascii: "safe_word w \<Longrightarrow> ascii_word w"
  using needs_quote_bounds(8) by (auto simp: safe_word_def ascii_word_def list_all_iff)

lemma ascii_to_string [simp]: "ascii_word (to_string n)" "ascii_word REPO_DIR"
  by (simp_all add: safe_ascii) (simp add: REPO_DIR_def ascii_def uchar_def)

lemma decode_number_to_string: "f \<noteq> - 1 \<Longrightarrow> decode_number (to_string (unat f)) = Some f"
  by (simp add: decode_number_def ParseUnsigned_to_string)

lemma decode_named_words:
  "n \<noteq> [] \<Longrightarrow> f \<noteq> - 1 \<Longrightarrow> decode_named mk (tl (named_words kw n f)) = Request (mk f n)"
  by (auto simp: decode_named_def named_words_def decode_number_to_string)

lemma decode_call_words:
  assumes "n \<noteq> []" and "f \<noteq> - 1"
  shows "decode (call_words (CallExport n f)) = Request (Export f n)"
    and "decode (call_words (CallImport n f)) = Request (Import f n)"
    and "decode (call_words (CallCompiled n f)) = Request (Compiled f n)"
    and "decode (call_words (CallTranslate n f)) = Request (Translate f n)"
    and "decode (call_words CallRepo) = Request Repo"
    and "decode (call_words (CallConnect a i)) = Hello 1 a i"
  using decode_named_words [OF assms, of Export "''MODULE-EXPORT''"]
    decode_named_words [OF assms, of Import "''MODULE-IMPORT''"]
    decode_named_words [OF assms, of Compiled "''MODULE-COMPILED''"]
    decode_named_words [OF assms, of Translate "''INCLUDE-TRANSLATE''"]
    decode_number_to_string [of 1]
  by (simp_all add: named_words_def decode_def decode_hello_def)

lemma set_dots: "set (dots p s) \<subseteq> insert DOT_REPLACE (set s)"
proof (induction "length s" arbitrary: p s rule: less_induct)
  case less
  show ?case
  proof (cases s)
    case (Cons c cs)
    have "set (dots q cs) \<subseteq> insert DOT_REPLACE (set cs)" for q using less.hyps [of cs q] by (simp add: Cons)
    moreover have "set (dots q (DOT_REPLACE # tl cs)) \<subseteq> insert DOT_REPLACE (set cs)" if "dotdot s" for q
      using that less.hyps [of "DOT_REPLACE # tl cs" q] by (auto simp: dotdot_def Cons)
    ultimately show ?thesis by (auto simp: Cons dots_Cons)
  qed simp
qed

lemma ascii_cmi_of: "n \<noteq> [] \<Longrightarrow> ascii_word n \<Longrightarrow> ascii_word (cmi_of n)"
proof (erule name_cases)
  assume ascii: "ascii_word n"
  have more: "ascii_word (dots True m)" if "ascii_word m" for m
    using set_dots [of True m] that by (auto simp: ascii_word_def list_all_iff ascii_def uchar_def)
  have suffix: "ascii_word cmi_suffix" by (simp add: ascii_def uchar_def)
  have chars: "ascii CHR ''.''" "ascii CHR ''/''" "ascii CHR '',''" by (simp_all add: ascii_def uchar_def)
  { fix m assume "n = CHR ''/'' # m"
    then show ?thesis using more [of m] ascii suffix chars by (simp add: cmi_of_def GetCMIName_abs) }
  { fix m assume "n = ''./'' @ m"
    then show ?thesis using more [of m] ascii suffix chars GetCMIName_rel [of GetCMISuffix m] by (simp add: cmi_of_def) }
  assume "named_module n"
  then show ?thesis
    using ascii suffix decolon_set [of n]
    by (auto simp: cmi_of_def GetCMIName_module ascii_word_def list_all_iff ascii_def uchar_def)
qed

text \<open>Decoding the replies of the default resolver.\<close>

lemma reply_pathname:
  assumes "ascii_word path" and "rc \<in> {RC_MODULE_REPO, RC_MODULE_EXPORT, RC_MODULE_IMPORT, RC_INCLUDE_TRANSLATE}"
  shows "reply_packet rc False (enc_line [''PATHNAME'', path]) = SetRequest (rc_word rc) (Packet_str PC_PATHNAME path)"
  using assms
  by (auto simp: reply_packet_def fill_error_def responseTable_def Client_PathnameResponse_def IncludeTranslateResponse_def
      ascii_def uchar_def)

lemma reply_hello:
  "reply_packet RC_CONNECT False (enc_line [''HELLO'', to_string 1, ''default'']) = SetRequest 0 (Packet_int PC_CONNECT 0)"
proof -
  have "strtoul (c_str (to_string 1)) = (1, [])"
    using strtoul_digits [OF digits_to_string, of 1] by (simp add: c_str_digits digits_to_string)
  then show ?thesis
    by (simp add: reply_packet_def fill_error_def responseTable_def Client_ConnectResponse_def rc_word_def
        ascii_def uchar_def)
qed

text \<open>A client directly connected to a fresh server.\<close>

definition example_client :: "os Client" where
  "example_client = Client_direct (example_server empty_buffer undefined)"

lemma example_client_linked: "linked (example_server empty_buffer undefined) example_client" "idle example_client"
  by (simp_all add: example_client_def linked_def idle_def Client_direct_def empty_buffer_def)

lemma invoke_line: "call_line (CallInvoke [''cc'', ''-o=x'']) = ''INVOKE cc -o=x''"
  "lex_line ''INVOKE cc -o=x'' = Some [''INVOKE'', ''cc'', ''-o=x'']"
  "decode [''INVOKE'', ''cc'', ''-o=x''] = Request (Invoke [''INVOKE'', ''cc'', ''-o=x''])"
  by (code_simp, code_simp) (simp add: decode_def)

lemma example_served:
  "serve_all (default_serve strerr)
      (resolver (example_server empty_buffer undefined), is_connected (example_server empty_buffer undefined))
      (call_lines [CallConnect ''gcc'' [], CallRepo, CallInvoke [''cc'', ''-o=x'']])
   = ([[''HELLO'', to_string 1, ''default''], [''PATHNAME'', REPO_DIR], [''ERROR'', ''unimplemented'']], undefined, True)"
proof -
  have ascii: "list_all ascii_word (call_words (CallConnect ''gcc'' []))" "list_all ascii_word (call_words CallRepo)"
    by (simp_all add: ascii_def uchar_def)
  then show ?thesis
    using decode_call_words [of "''x''" 0]
    by (simp del: call_words.simps call_line.simps(1) add: invoke_line default_conn_def default_req_def)
qed

section \<open>Client and an arbitrary peer\<close>

text \<open>C12: no peer can make the client fault: over descriptors, whatever bytes the other side
  sends and whatever the system answers to \<open>read\<close> and \<open>write\<close>, a request returns a packet
  or keeps waiting; it never reads outside a buffer, fails an assertion or reads the wrong
  member of a packet. (A failing system call does set \<open>errno\<close>.)\<close>

theorem client_robust:
  assumes "channel c = Fds from_fd to_fd" and "ReadErr 0 \<notin> set (kernel_reads c)" and "rc \<noteq> RC_HWM"
  shows "(\<exists>p d. MaybeRequest strerr vt c (rc_word rc) = Inr (p, d)) \<or> MaybeRequest strerr vt c (rc_word rc) = Inl Diverges"
proof (cases "IsCorked c")
  case False
  consider "CommunicateWithServer strerr vt c = Inl Diverges"
    | e d where "CommunicateWithServer strerr vt c = Inr (e, d)" "e = 0 \<longrightarrow> readable (cl_read d)"
    using exchange_fds [OF assms(1,2), of strerr vt] by blast
  then show ?thesis
  proof cases
    case 2
    then show ?thesis
      using False ProcessResponse_total [OF _ assms(3), of d True] by (auto simp: MaybeRequest_def)
  qed (use False in \<open>simp add: MaybeRequest_def\<close>)
qed (simp add: MaybeRequest_def)

theorem client_robust_witness:
  "(\<exists>p d. MaybeRequest (\<lambda>_. []) default_resolver (Client_fds 3 4 [Wrote 1] [Got [NUL, APOS, NL]]) (rc_word RC_CONNECT) = Inr (p, d))
   \<or> MaybeRequest (\<lambda>_. []) default_resolver (Client_fds 3 4 [Wrote 1] [Got [NUL, APOS, NL]]) (rc_word RC_CONNECT) = Inl Diverges"
  by (rule client_robust [of _ 3 4]) (simp_all add: Client_fds_def)

text \<open>The same holds for a corked batch: over descriptors \<open>Uncork\<close> returns, or keeps
  waiting; when the exchange succeeds there is one packet for each queued request, even if
  the peer sent fewer or malformed lines, otherwise a single error packet.\<close>

theorem uncork_robust:
  assumes "channel c = Fds from_fd to_fd" and "ReadErr 0 \<notin> set (kernel_reads c)"
    and "corked c = m # map (\<lambda>rc. cork_char (rc_word rc)) rcs" and "RC_HWM \<notin> set rcs" and "rcs \<noteq> []"
  shows "Uncork strerr vt c = Inl Diverges
    \<or> (\<exists>ps d. Uncork strerr vt c = Inr (ps, d) \<and> corked d = []
         \<and> (length ps = length rcs \<or> (\<exists>e. ps = [CommunicationError strerr e])))"
proof -
  consider "CommunicateWithServer strerr vt c = Inl Diverges"
    | e d where "CommunicateWithServer strerr vt c = Inr (e, d)" "corked d = corked c" "e = 0 \<longrightarrow> readable (cl_read d)"
    using exchange_fds [OF assms(1,2), of strerr vt] by blast
  then show ?thesis
  proof cases
    case 2
    show ?thesis
    proof (cases "e = 0")
      case True
      then obtain ps d' where "uncork_loop d (tl (corked d)) = Inr (ps, d')" "length ps = length rcs"
        using 2 uncork_loop_total [of d rcs] assms(3,4) by auto
      then show ?thesis using 2 True assms(3,5) by (simp add: Uncork_def)
    qed (use 2 assms(3,5) in \<open>auto simp: Uncork_def\<close>)
  qed (use assms(3,5) in \<open>simp add: Uncork_def\<close>)
qed

theorem uncork_robust_witness:
  "Uncork (\<lambda>_. []) default_resolver
      ((Client_fds 3 4 [Wrote 1] [Got ''OK'', Got [NL]])\<lparr>corked := [NUL, cork_char (rc_word RC_MODULE_REPO)]\<rparr>) = Inl Diverges
   \<or> (\<exists>ps d. Uncork (\<lambda>_. []) default_resolver
        ((Client_fds 3 4 [Wrote 1] [Got ''OK'', Got [NL]])\<lparr>corked := [NUL, cork_char (rc_word RC_MODULE_REPO)]\<rparr>) = Inr (ps, d)
      \<and> corked d = [] \<and> (length ps = length [RC_MODULE_REPO] \<or> (\<exists>e. ps = [CommunicationError (\<lambda>_. []) e])))"
  by (rule uncork_robust [where from_fd = 3 and to_fd = 4 and m = NUL]) (simp_all add: Client_fds_def)

lemma Uncork_peer:
  assumes "channel c = Fds from_fd to_fd" and "queued reqs c" and "reqs \<noteq> []" and "RC_HWM \<notin> snd ` set reqs"
    and "takes_all (length (buffer (cl_write c)) + 1) (kernel_writes c)"
    and "split_block False blk = Some (blk, [])" and "delivers blk (kernel_reads c)"
    and "ps = peer_packets (map snd reqs) (nl_lines blk)"
  shows "\<exists>d. Uncork strerr vt c = Inr (ps, d) \<and> length ps = length reqs \<and> idle d
    \<and> kernel_sent d = kernel_sent c @ buffer (cl_write c) @ [NL] \<and> cl_connected d = (cl_connected c \<or> connects ps)"
proof -
  obtain m where m: "corked c = m # map (\<lambda>rc. cork_char (rc_word rc)) (map snd reqs)"
    using assms(2) by (auto simp: queued_def)
  obtain w where w: "write_all (kernel_writes c) (PrepareToWrite (cl_write c)) = Inr (0, buffer (cl_write c) @ [NL], empty_buffer, w)"
    using send_block [OF assms(5)] by auto
  obtain r where r: "read_all (kernel_reads c) (PrepareToRead (cl_read c)) = Inr (0, \<lparr>buffer = blk, lastBol = 0\<rparr>, r)"
    using read_all_delivers [of "PrepareToRead (cl_read c)" blk "kernel_reads c"] assms(6,7) by (auto simp: PrepareToRead_def)
  let ?d = "c\<lparr>cl_write := empty_buffer, cl_read := \<lparr>buffer = blk, lastBol = 0\<rparr>, kernel_writes := w, kernel_reads := r,
    kernel_sent := kernel_sent c @ buffer (cl_write c) @ [NL]\<rparr>"
  have d: "CommunicateWithServer strerr vt c = Inr (0, ?d)"
    using w r assms(1) by (simp add: CommunicateWithServer_def Let_def)
  have "readable (cl_read ?d)"
    using split_block_last [OF assms(6)] split_block_parts [OF assms(6)] by (auto simp: readable_def)
  moreover have "RC_HWM \<notin> set (map snd reqs)" using assms(4) by auto
  moreover have "nl_lines blk = lines_of (cl_read ?d)" by (simp add: lines_of_def)
  ultimately obtain rb where "uncork_loop ?d (map (\<lambda>rc. cork_char (rc_word rc)) (map snd reqs))
      = Inr (ps, ?d\<lparr>cl_read := rb, cl_connected := (cl_connected ?d \<or> connects ps)\<rparr>)"
    using uncork_loop_lines [of ?d "map snd reqs" "nl_lines blk"] assms(8) by auto
  then show ?thesis using d m assms(3,8) by (simp add: Uncork_def idle_def empty_buffer_def)
qed

text \<open>C20: what a corked batch makes of any block a peer may send: over descriptors, if the system
  takes the client's message and the answer is one complete block, of any bytes and cut into
  any pieces, then \<open>Uncork\<close> returns one packet for each queued request, the decoding of the
  line with the same number; a bad line spoils no other packet, each request without a line
  gets \<open>missing response\<close>, and lines too many turn the last packet into \<open>unexpected extra
  response\<close> unless it already is an error of its own. The message went out unchanged, and the
  client counts as connected exactly if it was or a handshake reply is among the packets.\<close>

theorem peer_block_decoded:
  assumes "channel c = Fds from_fd to_fd" and "queued reqs c" and "reqs \<noteq> []" and "RC_HWM \<notin> snd ` set reqs"
    and "takes_all (length (buffer (cl_write c)) + 1) (kernel_writes c)"
    and "split_block False blk = Some (blk, [])" and "delivers blk (kernel_reads c)"
    and "ps = peer_packets (map snd reqs) (nl_lines blk)"
  shows "\<exists>d. Uncork strerr vt c = Inr (ps, d) \<and> length ps = length reqs \<and> idle d
    \<and> kernel_sent d = kernel_sent c @ buffer (cl_write c) @ [NL] \<and> cl_connected d = (cl_connected c \<or> connects ps)"
  by (rule Uncork_peer [OF assms])

text \<open>A client with three requests, and a peer that answers two of them, one with a lone quote.\<close>

definition asking_client :: "os Client" where
  "asking_client = (let w = write_block (replicate 3 [''MODULE-REPO'']) empty_buffer in
     (Client_fds 3 4 [Wrote 0, Wrote (length (buffer w) + 1)] [Got ''PATHNAME a'', ReadErr EINTR, Got (SPC # CHR '';'' # NL # APOS # [NL])])
       \<lparr>cl_write := w, corked := NUL # map (\<lambda>rc. cork_char (rc_word rc)) (replicate 3 RC_MODULE_REPO)\<rparr>)"

lemma asking_queued: "queued (replicate 3 (enc_line [''MODULE-REPO''], RC_MODULE_REPO)) asking_client" "channel asking_client = Fds 3 4"
  using write_block_holds [of "replicate 3 [''MODULE-REPO'']"]
  by (simp_all add: asking_client_def Let_def queued_def Client_fds_def map_replicate_const holds_block_lines)

lemma asking_packets: "peer_packets (map snd (replicate 3 (enc_line [''MODULE-REPO''], RC_MODULE_REPO))) (nl_lines (''PATHNAME a'' @ SPC # CHR '';'' # NL # APOS # [NL]))
  = [SetRequest 1 (Packet_str PC_PATHNAME ''a''), Packet_str PC_ERROR (''malformed string '' @ [APOS, APOS, APOS]), Packet_str PC_ERROR ''missing response'']"
  by code_simp

theorem peer_block_decoded_witness:
  "\<exists>d. Uncork (\<lambda>_. []) default_resolver asking_client
      = Inr ([SetRequest 1 (Packet_str PC_PATHNAME ''a''), Packet_str PC_ERROR (''malformed string '' @ [APOS, APOS, APOS]),
          Packet_str PC_ERROR ''missing response''], d) \<and> idle d"
proof -
  let ?blk = "''PATHNAME a'' @ SPC # CHR '';'' # NL # APOS # [NL]"
  have "takes_all (length (buffer (cl_write asking_client)) + 1) (kernel_writes asking_client)" "delivers ?blk (kernel_reads asking_client)"
    by (simp_all add: asking_client_def Let_def Client_fds_def)
  moreover have "split_block False ?blk = Some (?blk, [])" by simp
  ultimately show ?thesis
    using peer_block_decoded [OF asking_queued(2,1) _ _ _ _ _ asking_packets [symmetric]] by auto
qed

text \<open>C34: a connection must not be used again after an error: nothing pairs replies with requests,
  so if reading the reply to one request fails for good and the next request is made on the
  same descriptors, the reply to the first, which only now arrives, is returned as the reply
  to the second.\<close>

theorem late_reply_mistaken:
  assumes "channel c = Fds from_fd to_fd" and "idle c"
    and "kernel_writes c = [Wrote (length (call_line q1) + 1), Wrote (length (call_line q2) + 1)]"
    and "kernel_reads c = ReadErr e # rs" and "e \<notin> {0, EAGAIN, EINTR}"
    and "ws \<noteq> []" and "delivers (enc_line ws @ [NL]) rs"
  shows "\<exists>d. make_calls strerr vt [q1, q2] c
    = Inr ([CommunicationError strerr e, reply_packet (call_code q2) False (enc_line ws)], d)
    \<and> kernel_sent d = kernel_sent c @ call_line q1 @ [NL] @ call_line q2 @ [NL]"
proof -
  have start: "buffer (cl_write c) = []" "corked c = []" using assms(2) by (simp_all add: idle_def)
  let ?c = "c\<lparr>cl_write := put_call q1 (cl_write c)\<rparr>"
  let ?d = "?c\<lparr>cl_write := empty_buffer, cl_read := PrepareToRead (cl_read c),
    kernel_writes := [Wrote (length (call_line q2) + 1)], kernel_reads := rs,
    kernel_sent := kernel_sent c @ call_line q1 @ [NL]\<rparr>"
  have line: "buffer (put_call q1 (cl_write c)) = call_line q1" by (rule put_call_first [OF start(1)])
  then have "CommunicateWithServer strerr vt ?c = Inr (e, ?d)"
    using assms(1,3-5) by (simp add: CommunicateWithServer_def Let_def PrepareToWrite_def Write_def Read_def empty_buffer_def)
  then have one: "make_call strerr vt q1 c = Inr (CommunicationError strerr e, ?d)"
    using start(2) assms(5) unfolding make_call_puts by (simp add: MaybeRequest_def IsCorked_def)
  let ?e = "?d\<lparr>cl_write := put_call q2 (cl_write ?d)\<rparr>"
  have "buffer (cl_write ?e) = call_line q2" using put_call_first [of empty_buffer q2] by (simp add: empty_buffer_def)
  then obtain d where d: "MaybeRequest strerr vt ?e (rc_word (call_code q2)) = Inr (reply_packet (call_code q2) False (enc_line ws), d)"
    "kernel_sent d = kernel_sent ?e @ call_line q2 @ [NL]"
    using MaybeRequest_fds [of ?e from_fd to_fd "call_code q2" "call_line q2" ws strerr vt] assms(1,6,7) start(2) by auto
  have two: "make_call strerr vt q2 ?d = Inr (reply_packet (call_code q2) False (enc_line ws), d)"
    unfolding make_call_puts by (rule d(1))
  have "make_calls strerr vt [q1, q2] c
      = Inr ([CommunicationError strerr e, reply_packet (call_code q2) False (enc_line ws)], d)"
    by (simp only: make_calls.simps one two bind_res_simps prod.case)
  then show ?thesis using d(2) by simp
qed

theorem late_reply_mistaken_witness:
  "\<exists>d. make_calls (\<lambda>_. []) default_resolver [CallImport ''foo'' 0, CallImport ''bar'' 0]
        (Client_fds 3 4 [Wrote 18, Wrote 18] [ReadErr 5, Got (''PATHNAME foo.cmi'' @ [NL])])
      = Inr ([CommunicationError (\<lambda>_. []) 5, SetRequest 3 (Packet_str PC_PATHNAME ''foo.cmi'')], d)"
proof -
  have lines: "length (call_line (CallImport ''foo'' 0)) + 1 = 18" "length (call_line (CallImport ''bar'' 0)) + 1 = 18"
    "enc_line [''PATHNAME'', ''foo.cmi''] = ''PATHNAME foo.cmi''"
    "reply_packet RC_MODULE_IMPORT False ''PATHNAME foo.cmi'' = SetRequest 3 (Packet_str PC_PATHNAME ''foo.cmi'')"
    by code_simp+
  show ?thesis
    using late_reply_mistaken [of "Client_fds 3 4 [Wrote 18, Wrote 18] [ReadErr 5, Got (''PATHNAME foo.cmi'' @ [NL])]" 3 4
        "CallImport ''foo'' 0" "CallImport ''bar'' 0" 5 _ "[''PATHNAME'', ''foo.cmi'']" "\<lambda>_. []" default_resolver]
    unfolding lines by (auto simp: Client_fds_def idle_def empty_buffer_def lines)
qed

text \<open>Over a direct connection the client gets one packet for each queued request whatever
  the resolver does, contract or not: \<open>Uncork\<close> returns exactly if the server does, with the
  same fault if it does not, and the packets are a function of the lines the server has
  written, in order, as for a peer over descriptors.\<close>

lemma direct_any_resolver:
  assumes "channel c = Direct s" and "queued reqs c" and "reqs \<noteq> []" and "RC_HWM \<notin> snd ` set reqs"
    and "DirectProcess strerr vt s (PrepareToWrite (cl_write c)) (PrepareToRead (cl_read c)) = out"
  shows "case out of
      Inl h \<Rightarrow> Uncork strerr vt c = Inl h
    | Inr (s', w, r) \<Rightarrow> \<exists>d. Uncork strerr vt c = Inr (peer_packets (map snd reqs) (nl_lines (buffer r)), d)
        \<and> length (peer_packets (map snd reqs) (nl_lines (buffer r))) = length reqs
        \<and> channel d = Direct s' \<and> corked d = []
        \<and> cl_connected d = (cl_connected c \<or> connects (peer_packets (map snd reqs) (nl_lines (buffer r))))"
proof -
  obtain m where m: "corked c = m # map (\<lambda>rc. cork_char (rc_word rc)) (map snd reqs)"
    using assms(2) by (auto simp: queued_def)
  show ?thesis
  proof (cases out)
    case (Inl h)
    then show ?thesis
      using assms(1,3,5) m by (simp add: Uncork_def CommunicateWithServer_def Let_def)
  next
    case (Inr a)
    obtain s' w r where a: "a = (s', w, r)" by (cases a)
    let ?d = "c\<lparr>channel := Direct s', cl_write := w, cl_read := r\<rparr>"
    have com: "CommunicateWithServer strerr vt c = Inr (0, ?d)"
      using assms(1,5) Inr a by (simp add: CommunicateWithServer_def Let_def)
    have r: "readable r" "lastBol r = 0"
      using assms(5) Inr a by (auto simp: DirectProcess_def Let_def bind_res_eq_Inr PrepareToWrite_def readable_def)
    have "RC_HWM \<notin> set (map snd reqs)" using assms(4) by auto
    moreover have "nl_lines (buffer r) = lines_of (cl_read ?d)" using r(2) by (simp add: lines_of_def)
    ultimately obtain rb where "uncork_loop ?d (map (\<lambda>rc. cork_char (rc_word rc)) (map snd reqs))
        = Inr (peer_packets (map snd reqs) (nl_lines (buffer r)), ?d\<lparr>cl_read := rb,
            cl_connected := (cl_connected ?d \<or> connects (peer_packets (map snd reqs) (nl_lines (buffer r))))\<rparr>)"
      using uncork_loop_lines [of ?d "map snd reqs" "nl_lines (buffer r)"] r(1) by auto
    then show ?thesis using com m assms(3) Inr a by (simp add: Uncork_def)
  qed
qed

section \<open>Departures from the documentation\<close>

text \<open>C32: the arguments of \<open>InvokeSubProcess\<close> are not quoted: one argument that contains a
  space cannot be told from two arguments, whatever the state of the client.\<close>

theorem invoke_splits_arguments:
  assumes "a \<noteq> []" and "b \<noteq> []" and "NUL \<notin> set a" and "NUL \<notin> set b"
  shows "InvokeSubProcess strerr vt [a @ SPC # b] c = InvokeSubProcess strerr vt [a, b] c"
proof -
  have ext: "c_extent s None = s" if "NUL \<notin> set s" for s
    using that unfolding c_extent_def by (induction s) auto
  have "NUL \<notin> set (a @ SPC # b)" using assms by auto
  then show ?thesis
    using assms by (simp add: InvokeSubProcess_def Let_def AppendWord_adds ext app_bytes_def BeginLine_def)
qed

theorem invoke_splits_arguments_witness:
  "InvokeSubProcess (\<lambda>_. []) default_resolver [''a'' @ SPC # ''b''] example_client
   = InvokeSubProcess (\<lambda>_. []) default_resolver [''a'', ''b''] example_client"
  by (rule invoke_splits_arguments) simp_all

text \<open>A packet made from an ERROR response does not record the request it answers: its
  request is 0, that of the handshake, whatever was asked.\<close>

theorem error_packet_unattributed:
  assumes "remaining [[''ERROR'', m]] (cl_read c)" and "ascii_word m" and "rc \<noteq> RC_HWM"
  shows "\<exists>p d. ProcessResponse c (rc_word rc) True = Inr (p, d) \<and> GetCode p = PC_ERROR
    \<and> GetString p = Inr m \<and> GetRequest p = rc_word RC_CONNECT"
proof -
  have "reply_packet rc False (enc_line [''ERROR'', m]) = Packet_str PC_ERROR m"
    using assms(2) by (simp add: reply_packet_def ascii_def uchar_def)
  then show ?thesis
    using ProcessResponse_remaining [OF assms(1,3), of True]
    by (simp add: GetString_def Packet_str_def GetRequest_def GetCode_def rc_word_def)
qed

theorem error_packet_unattributed_witness:
  "\<exists>p d. ProcessResponse (example_client\<lparr>cl_read := PrepareToWrite (write_block [[''ERROR'', ''no'']] empty_buffer)\<rparr>)
        (rc_word RC_INVOKE) True = Inr (p, d) \<and> GetCode p = PC_ERROR \<and> GetString p = Inr ''no''
     \<and> GetRequest p = rc_word RC_CONNECT"
  using PrepareToWrite_remaining [OF write_block_holds [of "[[''ERROR'', ''no'']]"]]
  by (intro error_packet_unattributed) (simp_all add: ascii_def uchar_def)

end
