(* ===== verification/PacketTypes.thy ===== *)
theory PacketTypes
  imports ClientProperties
begin

text \<open>
  Which packets the client can return: the code of a packet determines the member of the
  variant that is active, and a request limits the codes of its reply, whatever the other
  side sends. So a caller that looks at the code reads the right member.
\<close>

definition typed_payload :: "RequestCode \<Rightarrow> Packet \<Rightarrow> bool" where
  "typed_payload rc p \<longleftrightarrow>
     (case payload p of
        String s \<Rightarrow>
          GetCode p = PC_ERROR
          \<or> GetCode p = PC_PATHNAME \<and> rc \<in> {RC_MODULE_REPO, RC_MODULE_EXPORT, RC_MODULE_IMPORT, RC_INCLUDE_TRANSLATE}
      | Integer i \<Rightarrow>
          GetCode p = PC_CONNECT \<and> rc = RC_CONNECT
          \<or> GetCode p = PC_OK \<and> rc \<in> {RC_MODULE_COMPILED, RC_INVOKE}
          \<or> GetCode p = PC_BOOL \<and> rc = RC_INCLUDE_TRANSLATE \<and> (i = 0 \<or> i = 1)
      | Vector v \<Rightarrow> False)"

text \<open>A packet that is no error also carries the code of its request.\<close>

definition typed_reply :: "RequestCode \<Rightarrow> Packet \<Rightarrow> bool" where
  "typed_reply rc p \<longleftrightarrow> typed_payload rc p \<and> (GetCode p \<noteq> PC_ERROR \<longrightarrow> GetRequest p = rc_word rc)"

lemma payload_constructors [simp]:
  "payload (Packet_str k s) = String s" "payload (Packet_int k i) = Integer i"
  by (simp_all add: Packet_str_def Packet_int_def)

lemma typed_error [simp]: "typed_reply rc (Packet_str PC_ERROR s)"
  by (simp add: typed_reply_def typed_payload_def)

lemma typed_SetRequest [simp]: "typed_payload rc (SetRequest r p) = typed_payload rc p"
  by (simp add: typed_payload_def split: payload.split)

lemma responseTable_typed: "rc \<noteq> RC_HWM \<Longrightarrow> typed_payload rc ((responseTable ! rc_num rc) ws)"
  by (cases rc)
    (auto simp: responseTable_def typed_payload_def Client_ConnectResponse_def Client_PathnameResponse_def
      Client_OKResponse_def IncludeTranslateResponse_def Let_def split: prod.split)

lemma GetRequest_Set: "rc \<noteq> RC_HWM \<Longrightarrow> GetRequest (SetRequest (rc_word rc) p) = rc_word rc"
  by (cases rc) (simp_all add: GetRequest_def SetRequest_def rc_word_def)

lemma typed_AssignString: "AssignString s p = Inr q \<Longrightarrow> typed_reply rc p \<Longrightarrow> typed_reply rc q"
  by (auto simp: AssignString_def typed_reply_def typed_payload_def GetRequest_def split: payload.splits)

lemma ProcessResponse_typed:
  assumes "rc \<noteq> RC_HWM" and "ProcessResponse c (rc_word rc) l = Inr (p, c')"
  shows "typed_reply rc p"
proof -
  have reply: "typed_reply rc (SetRequest (rc_word rc) ((responseTable ! rc_num rc) ws))" for ws
    using responseTable_typed [OF assms(1)] GetRequest_Set [OF assms(1)] by (simp add: typed_reply_def)
  have "AssignString s (SetRequest (rc_word rc) ((responseTable ! rc_num rc) ws)) = Inr q \<Longrightarrow> typed_reply rc q" for s ws q
    by (erule typed_AssignString) (rule reply)
  with assms(2) reply show ?thesis
    by (auto simp: ProcessResponse_def bind_res_eq_Inr Let_def split: if_splits)
qed

lemma ProcessResponse_corked: "ProcessResponse c k l = Inr (p, c') \<Longrightarrow> corked c' = corked c"
  by (auto simp: ProcessResponse_def bind_res_eq_Inr Let_def split: if_splits)

lemma CommunicateWithServer_corked: "CommunicateWithServer strerr vt c = Inr (e, c') \<Longrightarrow> corked c' = corked c"
  by (auto simp: CommunicateWithServer_def bind_res_eq_Inr Let_def split: channel.splits if_splits)

lemma MaybeRequest_typed:
  assumes "rc \<noteq> RC_HWM" and "MaybeRequest strerr vt c (rc_word rc) = Inr (p, c')"
  shows "if IsCorked c then p = Packet_int PC_CORKED 0 \<and> corked c' = corked c @ [cork_char (rc_word rc)] else typed_reply rc p"
  using assms(2) ProcessResponse_typed [OF assms(1)]
  by (auto simp: MaybeRequest_def bind_res_eq_Inr CommunicationError_def split: if_splits)

lemma uncork_loop_typed:
  "RC_HWM \<notin> set rcs \<Longrightarrow> uncork_loop c (map (\<lambda>rc. cork_char (rc_word rc)) rcs) = Inr (ps, c') \<Longrightarrow> list_all2 typed_reply rcs ps"
proof (induction rcs arbitrary: c ps)
  case (Cons rc rcs)
  then show ?case
    using ProcessResponse_typed [of rc] by (auto simp: bind_res_eq_Inr)
qed simp

lemma make_call_typed:
  assumes "make_call strerr vt q c = Inr (p, c')"
  shows "if IsCorked c then p = Packet_int PC_CORKED 0 \<and> corked c' = corked c @ [cork_char (rc_word (call_code q))]
    else typed_reply (call_code q) p"
  using MaybeRequest_typed [of "call_code q"] assms unfolding make_call_puts by (fastforce simp: IsCorked_def)

lemma Uncork_typed:
  assumes queue: "corked c = mark # map (\<lambda>q. cork_char (rc_word (call_code q))) qs" and "qs \<noteq> []"
    and run: "Uncork strerr vt c = Inr (ps, d)"
  shows "(\<exists>e. ps = [CommunicationError strerr e]) \<or> list_all2 (\<lambda>q. typed_reply (call_code q)) qs ps"
proof -
  have "tl (corked d) = map (\<lambda>rc. cork_char (rc_word rc)) (map call_code qs)"
    if "CommunicateWithServer strerr vt c = Inr (e, d)" for e d
    using CommunicateWithServer_corked [OF that] queue by simp
  moreover have "RC_HWM \<notin> set (map call_code qs)" by auto
  ultimately have loop: "list_all2 typed_reply (map call_code qs) ps'"
    if "CommunicateWithServer strerr vt c = Inr (e, d)" "uncork_loop d (tl (corked d)) = Inr (ps', d')" for e d ps' d'
    using that uncork_loop_typed [of "map call_code qs" d ps' d'] by simp
  show ?thesis
    using run queue \<open>qs \<noteq> []\<close> loop
    by (auto simp: Uncork_def bind_res_eq_Inr list.rel_map split: if_splits)
qed

text \<open>C13: packets are well typed: whatever the server, the system or the resolver does, each of
  the seven requests, if it is not corked, returns a packet whose code is one the request
  allows, whose active member is the one documented for that code, and which carries the
  code of the request unless it is an error; a corked one returns PC_CORKED and puts its
  request code at the end of the queue, and \<open>Uncork\<close> gives one such packet per request of
  the queue, or the single communication error.\<close>

theorem packets_typed:
  "(make_call strerr vt q c = Inr (p, c')
      \<longrightarrow> (if IsCorked c then p = Packet_int PC_CORKED 0 \<and> corked c' = corked c @ [cork_char (rc_word (call_code q))]
          else typed_reply (call_code q) p))
   \<and> (corked c = mark # map (\<lambda>q. cork_char (rc_word (call_code q))) qs \<and> qs \<noteq> [] \<and> Uncork strerr vt c = Inr (ps, d)
      \<longrightarrow> (\<exists>e. ps = [CommunicationError strerr e]) \<or> list_all2 (\<lambda>q. typed_reply (call_code q)) qs ps)"
  using make_call_typed [of strerr vt q c p c'] Uncork_typed [of c mark qs strerr vt ps d] by blast

definition broken_pipe :: "os Client" where
  "broken_pipe = (Client_fds 3 4 [WriteErr 32] [])\<lparr>corked := [NUL, cork_char (rc_word RC_MODULE_REPO)]\<rparr>"

lemma broken_pipe_uncork:
  "\<exists>d. Uncork (\<lambda>_. []) default_resolver broken_pipe = Inr ([CommunicationError (\<lambda>_. []) 32], d)"
  by (simp add: broken_pipe_def Client_fds_def Uncork_def CommunicateWithServer_def Write_def)

theorem packets_typed_witness:
  "(\<exists>p d. make_call (\<lambda>_. []) default_resolver (CallInvoke [''cc'', ''a b'']) example_client = Inr (p, d) \<and> typed_reply RC_INVOKE p)
   \<and> (\<exists>ps d. Uncork (\<lambda>_. []) default_resolver broken_pipe = Inr (ps, d)
        \<and> ((\<exists>e. ps = [CommunicationError (\<lambda>_. []) e]) \<or> list_all2 (\<lambda>q. typed_reply (call_code q)) [CallRepo] ps))"
proof
  let ?q = "CallInvoke [''cc'', ''a b'']"
  obtain vs r' c' where served: "default_serve (\<lambda>_. []) (resolver (example_server empty_buffer undefined),
      is_connected (example_server empty_buffer undefined)) (call_line ?q) = (vs, r', c')"
    by (metis prod_cases3)
  have "one_line ?q" by code_simp
  from dflt.make_call_linked [OF example_client_linked this served] obtain p d
    where p: "make_call (\<lambda>_. []) default_resolver ?q example_client = Inr (p, d)" by blast
  then have "typed_reply RC_INVOKE p"
    using packets_typed [of "\<lambda>_. []" default_resolver ?q example_client p d]
    by (simp add: IsCorked_def example_client_def Client_direct_def del: make_call.simps)
  with p show "\<exists>p d. make_call (\<lambda>_. []) default_resolver ?q example_client = Inr (p, d) \<and> typed_reply RC_INVOKE p"
    by blast
  from broken_pipe_uncork obtain ps d where run: "Uncork (\<lambda>_. []) default_resolver broken_pipe = Inr (ps, d)" by blast
  with packets_typed [of "\<lambda>_. []" default_resolver undefined broken_pipe undefined undefined NUL "[CallRepo]" ps d]
  show "\<exists>ps d. Uncork (\<lambda>_. []) default_resolver broken_pipe = Inr (ps, d)
        \<and> ((\<exists>e. ps = [CommunicationError (\<lambda>_. []) e]) \<or> list_all2 (\<lambda>q. typed_reply (call_code q)) [CallRepo] ps)"
    by (simp add: broken_pipe_def)
qed

end
