(* ===== verification/Network.thy ===== *)
theory Network
  imports BufferWrite
begin

text \<open>
  The socket helpers (\<open>netclient.cc\<close>, \<open>netserver.cc\<close>). The system calls are parameters, a
  record of functions on \<open>errno\<close> and the rest of the system; each call is logged with its
  result, so that what a helper opens, closes, allocates and frees can be read off the log.
\<close>

section \<open>The system interface\<close>

text \<open>The values are those of Linux; only their being distinct matters.\<close>

definition AF_UNIX :: int where "AF_UNIX = 1"

definition AF_INET6 :: int where "AF_INET6 = 10"

definition SOCK_STREAM :: int where "SOCK_STREAM = 1"

definition AI_NUMERICSERV :: int where "AI_NUMERICSERV = 0x400"

definition ERR_INVAL :: int where "ERR_INVAL = 22"

definition ERR_NAMETOOLONG :: int where "ERR_NAMETOOLONG = 36"

text \<open>
  A socket address is its family and the bytes after it: \<open>sun_path\<close> of a \<open>sockaddr_un\<close>, or
  the rest of a \<open>sockaddr_in6\<close>, which starts with the two bytes of \<open>sin6_port\<close>.
\<close>

record sockaddr =
  sa_family :: int
  sa_data :: bytes

text \<open>A node of the list \<open>getaddrinfo\<close> returns, and the members of the hints that are not zero.\<close>

record addrinfo =
  ai_family :: int
  ai_socktype :: int
  ai_addrlen :: nat
  ai_addr :: sockaddr

record ai_hints =
  hint_flags :: int
  hint_family :: int
  hint_socktype :: int

text \<open>
  Each call takes and returns \<open>errno\<close> with the rest of the system, on success as well. An
  \<open>int\<close> is the result of the call. \<open>getaddrinfo\<close> gives its error, or the address of the
  list, by which it is freed, with the list.
\<close>

record 'w sockets =
  sys_socket :: "int \<Rightarrow> int \<Rightarrow> int \<Rightarrow> int \<times> 'w \<Rightarrow> int \<times> int \<times> 'w"
  sys_connect :: "int \<Rightarrow> sockaddr \<Rightarrow> nat \<Rightarrow> int \<times> 'w \<Rightarrow> int \<times> int \<times> 'w"
  sys_bind :: "int \<Rightarrow> sockaddr \<Rightarrow> nat \<Rightarrow> int \<times> 'w \<Rightarrow> int \<times> int \<times> 'w"
  sys_listen :: "int \<Rightarrow> int \<Rightarrow> int \<times> 'w \<Rightarrow> int \<times> int \<times> 'w"
  sys_close :: "int \<Rightarrow> int \<times> 'w \<Rightarrow> int \<times> int \<times> 'w"
  sys_getaddrinfo :: "bytes option \<Rightarrow> bytes option \<Rightarrow> ai_hints \<Rightarrow> int \<times> 'w
    \<Rightarrow> (int + nat \<times> addrinfo list) \<times> int \<times> 'w"
  sys_freeaddrinfo :: "nat \<Rightarrow> int \<times> 'w \<Rightarrow> unit \<times> int \<times> 'w"
  gai_strerror :: "int \<Rightarrow> bytes"

datatype sys_event =
    ESocket int int int int
  | EConnect int sockaddr nat int
  | EBind int sockaddr nat int
  | EListen int int int
  | EClose int
  | EGetaddrinfo "bytes option" "bytes option" ai_hints "int + nat"
  | EFreeaddrinfo nat

record 'w net =
  net_errno :: int
  world :: 'w
  calls :: "sys_event list"

definition syscall :: "(int \<times> 'w \<Rightarrow> 'a \<times> int \<times> 'w) \<Rightarrow> ('a \<Rightarrow> sys_event) \<Rightarrow> 'w net \<Rightarrow> 'a \<times> 'w net" where
  "syscall f ev n =
     (let (r, e, w) = f (net_errno n, world n)
      in (r, n\<lparr>net_errno := e, world := w, calls := calls n @ [ev r]\<rparr>))"

definition do_socket :: "'w sockets \<Rightarrow> int \<Rightarrow> 'w net \<Rightarrow> int \<times> 'w net" where
  "do_socket api fam = syscall (sys_socket api fam SOCK_STREAM 0) (ESocket fam SOCK_STREAM 0)"

definition do_connect :: "'w sockets \<Rightarrow> int \<Rightarrow> sockaddr \<Rightarrow> nat \<Rightarrow> 'w net \<Rightarrow> int \<times> 'w net" where
  "do_connect api fd addr len = syscall (sys_connect api fd addr len) (EConnect fd addr len)"

definition do_bind :: "'w sockets \<Rightarrow> int \<Rightarrow> sockaddr \<Rightarrow> nat \<Rightarrow> 'w net \<Rightarrow> int \<times> 'w net" where
  "do_bind api fd addr len = syscall (sys_bind api fd addr len) (EBind fd addr len)"

definition do_listen :: "'w sockets \<Rightarrow> int \<Rightarrow> int \<Rightarrow> 'w net \<Rightarrow> int \<times> 'w net" where
  "do_listen api fd backlog = syscall (sys_listen api fd backlog) (EListen fd backlog)"

definition do_close :: "'w sockets \<Rightarrow> int \<Rightarrow> 'w net \<Rightarrow> int \<times> 'w net" where
  "do_close api fd = syscall (sys_close api fd) (\<lambda>_. EClose fd)"

definition do_getaddrinfo ::
  "'w sockets \<Rightarrow> bytes option \<Rightarrow> bytes option \<Rightarrow> ai_hints \<Rightarrow> 'w net
   \<Rightarrow> (int + nat \<times> addrinfo list) \<times> 'w net" where
  "do_getaddrinfo api name service hints =
     syscall (sys_getaddrinfo api name service hints) (\<lambda>g. EGetaddrinfo name service hints (map_sum id fst g))"

definition do_freeaddrinfo :: "'w sockets \<Rightarrow> nat \<Rightarrow> 'w net \<Rightarrow> 'w net" where
  "do_freeaddrinfo api p n = snd (syscall (sys_freeaddrinfo api p) (\<lambda>_. EFreeaddrinfo p) n)"

section \<open>Client side\<close>

text \<open>
  The argument \<open>char const **e\<close> is null (\<open>None\<close>) or points to a pointer, whose value is
  returned. \<open>socket_fail\<close> is the common exit at the label \<open>fail\<close>, which keeps the \<open>errno\<close>
  of the call that failed.
\<close>

type_synonym errp = "bytes option option"

definition set_errstr :: "bytes \<Rightarrow> errp \<Rightarrow> errp" where
  "set_errstr errstr e = map_option (\<lambda>_. Some errstr) e"

definition socket_fail :: "'w sockets \<Rightarrow> bytes \<Rightarrow> errp \<Rightarrow> int \<Rightarrow> 'w net \<Rightarrow> int \<times> errp \<times> 'w net" where
  "socket_fail api errstr e fd n =
     (let err = net_errno n;
          e = set_errstr errstr e;
          n = (if fd \<ge> 0 then snd (do_close api fd n) else n)
      in (-1, e, n\<lparr>net_errno := err\<rparr>))"

definition OpenSocket ::
  "'w sockets \<Rightarrow> errp \<Rightarrow> sockaddr \<Rightarrow> nat \<Rightarrow> 'w net \<Rightarrow> int \<times> errp \<times> 'w net" where
  "OpenSocket api e addr len n =
     (let (fd, n) = do_socket api (sa_family addr) n
      in if fd < 0 then socket_fail api ''creating socket'' e fd n
         else
           let (r, n) = do_connect api fd addr len n
           in if r < 0 then socket_fail api ''connecting socket'' e fd n
              else (fd, e, n))"

text \<open>
  The local address is built in a variable on the stack: only the members before
  \<open>sun_path\<close> are cleared, so what follows the terminating NUL is the previous contents of
  the memory, \<open>stack\<close>.
\<close>

definition sun_path_size :: nat where
  "sun_path_size = 108"

definition sizeof_sockaddr_un :: nat where
  "sizeof_sockaddr_un = 2 + sun_path_size"

definition local_address :: "bytes \<Rightarrow> bytes \<Rightarrow> sockaddr" where
  "local_address stack name =
     (let len = length (c_extent name None)
      in \<lparr>sa_family = AF_UNIX, sa_data = c_extent name None @ [NUL] @ drop (len + 1) stack\<rparr>)"

definition OpenLocal :: "'w sockets \<Rightarrow> bytes \<Rightarrow> errp \<Rightarrow> bytes \<Rightarrow> 'w net \<Rightarrow> int \<times> errp \<times> 'w net" where
  "OpenLocal api stack e name n =
     (if length (c_extent name None) \<ge> sun_path_size then (-1, e, n\<lparr>net_errno := ERR_NAMETOOLONG\<rparr>)
      else OpenSocket api e (local_address stack name) sizeof_sockaddr_un n)"

text \<open>
  Ports: the conversion of an \<open>int\<close> to \<open>uint16_t\<close> wraps, \<open>htons\<close> is the two bytes in memory,
  high one first.
\<close>

definition htons :: "16 word \<Rightarrow> bytes" where
  "htons p = [char_of (unat p div 256), char_of (unat p mod 256)]"

definition ntohs :: "bytes \<Rightarrow> 16 word" where
  "ntohs b = word_of_int (256 * uchar (b ! 0) + uchar (b ! 1))"

definition set_sin6_port :: "bytes \<Rightarrow> sockaddr \<Rightarrow> sockaddr" where
  "set_sin6_port p in6 = in6\<lparr>sa_data := p @ drop 2 (sa_data in6)\<rparr>"

definition sin6_port :: "sockaddr \<Rightarrow> bytes" where
  "sin6_port in6 = take 2 (sa_data in6)"

text \<open>
  The loop over the list of addresses, for the call that is tried on each (\<open>connect\<close> or
  \<open>bind\<close>); the result says whether one of them succeeded.
\<close>

fun try_addrs ::
  "(int \<Rightarrow> sockaddr \<Rightarrow> nat \<Rightarrow> 'w net \<Rightarrow> int \<times> 'w net) \<Rightarrow> int \<Rightarrow> int \<Rightarrow> addrinfo list \<Rightarrow> 'w net
   \<Rightarrow> bool \<times> 'w net" where
  "try_addrs probe fd port [] n = (False, n)"
| "try_addrs probe fd port (ai # ais) n =
     (if ai_family ai = AF_INET6 \<and> ai_socktype ai = SOCK_STREAM then
        (let in6 = set_sin6_port (htons (word_of_int port)) (ai_addr ai)
         in if uint (ntohs (sin6_port in6)) \<noteq> port
            then try_addrs probe fd port ais (n\<lparr>net_errno := ERR_INVAL\<rparr>)
            else
              let (r, n) = probe fd in6 (ai_addrlen ai) n
              in if r = 0 then (True, n) else try_addrs probe fd port ais n)
      else try_addrs probe fd port ais n)"

definition inet_hints :: "int \<Rightarrow> ai_hints" where
  "inet_hints flags = \<lparr>hint_flags = flags, hint_family = AF_INET6, hint_socktype = SOCK_STREAM\<rparr>"

definition inet_fail ::
  "'w sockets \<Rightarrow> bytes \<Rightarrow> errp \<Rightarrow> int \<Rightarrow> nat option \<Rightarrow> 'w net \<Rightarrow> int \<times> errp \<times> 'w net" where
  "inet_fail api errstr e fd addrs n =
     (let err = net_errno n;
          e = set_errstr errstr e;
          n = (if fd \<ge> 0 then snd (do_close api fd n) else n);
          n = (case addrs of Some p \<Rightarrow> do_freeaddrinfo api p n | None \<Rightarrow> n)
      in (-1, e, n\<lparr>net_errno := err\<rparr>))"

definition no_name :: "bytes option \<Rightarrow> bool" where
  "no_name name = (case name of None \<Rightarrow> True | Some s \<Rightarrow> c_extent s None = [])"

definition OpenInet6 :: "'w sockets \<Rightarrow> errp \<Rightarrow> bytes option \<Rightarrow> int \<Rightarrow> 'w net \<Rightarrow> int \<times> errp \<times> 'w net" where
  "OpenInet6 api e name port n =
     (if no_name name then inet_fail api ''missing server name'' e (-1) None (n\<lparr>net_errno := ERR_INVAL\<rparr>)
      else
        let (fd, n) = do_socket api AF_INET6 n
        in if fd < 0 then inet_fail api ''socket'' e fd None n
           else
             let (g, n) = do_getaddrinfo api name None (inet_hints 0) n
             in case g of
                  Inl err \<Rightarrow> inet_fail api (gai_strerror api err) e fd None (n\<lparr>net_errno := 0\<rparr>)
                | Inr (addrs, ais) \<Rightarrow>
                    let (ok, n) = try_addrs (do_connect api) fd port ais n
                    in if \<not> ok then inet_fail api ''connecting'' e fd (Some addrs) n
                       else (fd, e, do_freeaddrinfo api addrs n))"

section \<open>Server side\<close>

text \<open>The backlog is an \<open>unsigned\<close> passed as an \<open>int\<close>.\<close>

definition backlog_arg :: "32 word \<Rightarrow> int" where
  "backlog_arg backlog = sint (if backlog \<noteq> 0 then backlog else 17)"

definition ListenSocket ::
  "'w sockets \<Rightarrow> errp \<Rightarrow> sockaddr \<Rightarrow> nat \<Rightarrow> 32 word \<Rightarrow> 'w net \<Rightarrow> int \<times> errp \<times> 'w net" where
  "ListenSocket api e addr len backlog n =
     (let (fd, n) = do_socket api (sa_family addr) n
      in if fd < 0 then socket_fail api ''creating socket'' e fd n
         else
           let (r, n) = do_bind api fd addr len n
           in if r < 0 then socket_fail api ''binding socket'' e fd n
              else
                let (r, n) = do_listen api fd (backlog_arg backlog) n
                in if r < 0 then socket_fail api ''listening socket'' e fd n
                   else (fd, e, n))"

definition ListenLocal ::
  "'w sockets \<Rightarrow> bytes \<Rightarrow> errp \<Rightarrow> bytes \<Rightarrow> 32 word \<Rightarrow> 'w net \<Rightarrow> int \<times> errp \<times> 'w net" where
  "ListenLocal api stack e name backlog n =
     (if length (c_extent name None) \<ge> sun_path_size then (-1, e, n\<lparr>net_errno := ERR_NAMETOOLONG\<rparr>)
      else ListenSocket api e (local_address stack name) sizeof_sockaddr_un backlog n)"

text \<open>The loop of \<open>ListenInet6\<close> over its list is that of \<open>OpenInet6\<close>, with \<open>bind\<close> for \<open>connect\<close>.\<close>

definition bind_addrs :: "'w sockets \<Rightarrow> int \<Rightarrow> int \<Rightarrow> addrinfo list \<Rightarrow> 'w net \<Rightarrow> bool \<times> 'w net" where
  [simp]: "bind_addrs api = try_addrs (do_bind api)"

text \<open>
  After the label \<open>listen\<close> the list is freed but \<open>addrs\<close> still points to it, so a failing
  \<open>listen\<close> passes it to the common exit.
\<close>

definition ListenInet6 ::
  "'w sockets \<Rightarrow> errp \<Rightarrow> bytes option \<Rightarrow> int \<Rightarrow> 32 word \<Rightarrow> 'w net \<Rightarrow> int \<times> errp \<times> 'w net" where
  "ListenInet6 api e name port backlog n =
     (let (fd, n) = do_socket api AF_INET6 n
      in if fd < 0 then inet_fail api ''creating socket'' e fd None n
         else
           let (g, n) = do_getaddrinfo api name (Some ''0'') (inet_hints AI_NUMERICSERV) n
           in case g of
                Inl err \<Rightarrow> inet_fail api (gai_strerror api err) e fd None (n\<lparr>net_errno := 0\<rparr>)
              | Inr (addrs, ais) \<Rightarrow>
                  let (ok, n) = bind_addrs api fd port ais n
                  in if \<not> ok then inet_fail api ''binding socket'' e fd (Some addrs) n
                     else
                       let n = do_freeaddrinfo api addrs n;
                           (r, n) = do_listen api fd (backlog_arg backlog) n
                       in if r < 0 then inet_fail api ''listening socket'' e fd (Some addrs) n
                          else (fd, e, n))"

end
