(* ===== verification/NetworkSpec.thy ===== *)
theory NetworkSpec
  imports Network
begin

text \<open>
  What the socket helpers owe their caller: a bookkeeping of the descriptors and address
  lists a log of calls opens and closes, which rejects a second close or free, and the
  contract of one attempt of the address loop, a locale interpreted on \<open>connect\<close> and
  \<open>bind\<close>.
\<close>

section \<open>The log of a call\<close>

named_theorems log_simps \<open>what each system call adds to the log\<close>

lemma calls_syscall: "calls (snd (syscall f ev n)) = calls n @ [ev (fst (syscall f ev n))]"
  by (simp add: syscall_def Let_def split_def)

lemma calls_do [log_simps]:
  "calls (snd (do_socket api fam n)) = calls n @ [ESocket fam SOCK_STREAM 0 (fst (do_socket api fam n))]"
  "calls (snd (do_connect api fd a l n)) = calls n @ [EConnect fd a l (fst (do_connect api fd a l n))]"
  "calls (snd (do_bind api fd a l n)) = calls n @ [EBind fd a l (fst (do_bind api fd a l n))]"
  "calls (snd (do_listen api fd b n)) = calls n @ [EListen fd b (fst (do_listen api fd b n))]"
  "calls (snd (do_close api fd n)) = calls n @ [EClose fd]"
  "calls (snd (do_getaddrinfo api nm sv h n))
     = calls n @ [EGetaddrinfo nm sv h (map_sum id fst (fst (do_getaddrinfo api nm sv h n)))]"
  "calls (do_freeaddrinfo api p n) = calls n @ [EFreeaddrinfo p]"
  by (simp_all only: do_socket_def do_connect_def do_bind_def do_listen_def do_close_def
      do_getaddrinfo_def do_freeaddrinfo_def calls_syscall)

section \<open>Resources\<close>

text \<open>
  One call over the descriptors and lists that are open: \<open>None\<close> when it uses or releases
  something that is not, or when the system hands out what is still in use.
\<close>

fun resource :: "sys_event \<Rightarrow> int set \<times> nat set \<Rightarrow> (int set \<times> nat set) option" where
  "resource (ESocket f t p r) (fds, ls) =
     (if r < 0 then Some (fds, ls) else if r \<in> fds then None else Some (insert r fds, ls))"
| "resource (EConnect fd a l r) (fds, ls) = (if fd \<in> fds then Some (fds, ls) else None)"
| "resource (EBind fd a l r) (fds, ls) = (if fd \<in> fds then Some (fds, ls) else None)"
| "resource (EListen fd b r) (fds, ls) = (if fd \<in> fds then Some (fds, ls) else None)"
| "resource (EClose fd) (fds, ls) = (if fd \<in> fds then Some (fds - {fd}, ls) else None)"
| "resource (EGetaddrinfo nm sv h (Inl err)) (fds, ls) = Some (fds, ls)"
| "resource (EGetaddrinfo nm sv h (Inr p)) (fds, ls) = (if p \<in> ls then None else Some (fds, insert p ls))"
| "resource (EFreeaddrinfo p) (fds, ls) = (if p \<in> ls then Some (fds, ls - {p}) else None)"

fun resources :: "sys_event list \<Rightarrow> int set \<times> nat set \<Rightarrow> (int set \<times> nat set) option" where
  "resources [] st = Some st"
| "resources (ev # evs) st = (case resource ev st of None \<Rightarrow> None | Some st \<Rightarrow> resources evs st)"

lemma resources_append:
  "resources (xs @ ys) st = (case resources xs st of None \<Rightarrow> None | Some st \<Rightarrow> resources ys st)"
  by (induction xs arbitrary: st) (auto split: option.splits)

text \<open>What a helper did since \<open>n\<close>, and the balance it should have: on success only the descriptor it returns.\<close>

definition new_calls :: "'w net \<Rightarrow> 'w net \<Rightarrow> sys_event list" where
  "new_calls n n' = drop (length (calls n)) (calls n')"

definition tidy :: "'w net \<Rightarrow> int \<times> errp \<times> 'w net \<Rightarrow> bool" where
  "tidy n res =
     (case res of (fd, e, n') \<Rightarrow>
        resources (new_calls n n') ({}, {}) = Some (if fd < 0 then {} else {fd}, {}))"

lemma new_calls_append: "calls n' = calls n @ evs \<Longrightarrow> new_calls n n' = evs"
  by (simp add: new_calls_def)

lemma tidyI:
  "calls n' = calls n @ evs \<Longrightarrow> resources evs ({}, {}) = Some (if fd < 0 then {} else {fd}, {})
   \<Longrightarrow> tidy n (fd, e, n')"
  by (simp add: tidy_def new_calls_append)

section \<open>Ports\<close>

lemma ntohs_htons: "ntohs (htons p) = p"
proof -
  have "unat p < 65536" using unsigned_less [of p, where 'a = nat] by simp
  then have "unat p div 256 mod 256 = unat p div 256" by (intro mod_less) simp
  then have "uchar (htons p ! 0) = int (unat p div 256)" "uchar (htons p ! 1) = int (unat p mod 256)"
    by (simp_all add: htons_def uchar_char_of)
  then have "256 * uchar (htons p ! 0) + uchar (htons p ! 1) = int (256 * (unat p div 256) + unat p mod 256)"
    by (simp only: of_nat_add of_nat_mult of_nat_numeral)
  also have "\<dots> = uint p" by (simp only: mult_div_mod_eq) simp
  finally show ?thesis by (simp only: ntohs_def) simp
qed

lemma in_range_mod: "0 < m \<Longrightarrow> x mod m = x \<longleftrightarrow> 0 \<le> x \<and> x < m" for x m :: int
  by (metis mod_pos_pos_trivial pos_mod_bound pos_mod_sign)

lemma port_roundtrip:
  "uint (ntohs (sin6_port (set_sin6_port (htons (word_of_int port)) a))) = port \<longleftrightarrow> 0 \<le> port \<and> port < 65536"
proof -
  have "sin6_port (set_sin6_port (htons (word_of_int port)) a) = htons (word_of_int port)"
    by (simp add: sin6_port_def set_sin6_port_def htons_def)
  then have "uint (ntohs (sin6_port (set_sin6_port (htons (word_of_int port)) a))) = port mod 65536"
    by (simp add: ntohs_htons uint_word_of_int)
  then show ?thesis by (simp add: in_range_mod)
qed

section \<open>The address loop\<close>

text \<open>
  One attempt uses the descriptor it is given and leaves one entry in the log. The loop then
  makes such attempts only, and only on addresses with the port asked for.
\<close>

definition port_ok :: "int \<Rightarrow> sockaddr \<Rightarrow> bool" where
  "port_ok port a \<longleftrightarrow> 0 \<le> port \<and> port < 65536
     \<and> sin6_port a = [char_of (nat port div 256), char_of (nat port mod 256)]"

lemma set_port_ok:
  assumes "uint (ntohs (sin6_port (set_sin6_port (htons (word_of_int port)) a))) = port"
  shows "port_ok port (set_sin6_port (htons (word_of_int port)) a)"
proof -
  have p: "0 \<le> port" "port < 65536" using assms port_roundtrip by blast+
  then have "unat (word_of_int port :: 16 word) = nat port"
    by (simp add: unsigned_of_int take_bit_eq_mod)
  then show ?thesis using p by (simp add: port_ok_def sin6_port_def set_sin6_port_def htons_def)
qed

text \<open>The addresses that are worth an attempt, and the one that is then passed on.\<close>

definition usable :: "addrinfo list \<Rightarrow> addrinfo list" where
  "usable ais = filter (\<lambda>ai. ai_family ai = AF_INET6 \<and> ai_socktype ai = SOCK_STREAM) ais"

definition with_port :: "int \<Rightarrow> addrinfo \<Rightarrow> sockaddr" where
  "with_port port ai = set_sin6_port (htons (word_of_int port)) (ai_addr ai)"

text \<open>The results of the attempts made: one for each address in turn, until one is 0.\<close>

definition tried :: "addrinfo list \<Rightarrow> int list \<Rightarrow> bool \<Rightarrow> bool" where
  "tried ais rs ok \<longleftrightarrow> length rs \<le> length ais \<and> 0 \<notin> set (butlast rs)
     \<and> (if ok then rs \<noteq> [] \<and> last rs = 0 else length rs = length ais \<and> 0 \<notin> set rs)"

lemma tried_Cons:
  "tried (ai # ais) [0] True" "r \<noteq> 0 \<Longrightarrow> tried ais rs ok \<Longrightarrow> tried (ai # ais) (r # rs) ok"
  by (auto simp: tried_def split: if_splits)

locale attempt =
  fixes op :: "'w sockets \<Rightarrow> int \<Rightarrow> sockaddr \<Rightarrow> nat \<Rightarrow> 'w net \<Rightarrow> int \<times> 'w net"
    and ev :: "int \<Rightarrow> sockaddr \<Rightarrow> nat \<Rightarrow> int \<Rightarrow> sys_event"
  assumes logs: "calls (snd (op api fd a l n)) = calls n @ [ev fd a l (fst (op api fd a l n))]"
    and uses: "resource (ev fd a l r) (fds, ls) = (if fd \<in> fds then Some (fds, ls) else None)"
begin

definition attempts :: "int \<Rightarrow> int \<Rightarrow> sys_event list \<Rightarrow> bool" where
  "attempts fd port evs \<longleftrightarrow> (\<forall>e \<in> set evs. \<exists>a l r. e = ev fd a l r \<and> port_ok port a)"

lemma attempts_simps [simp]:
  "attempts fd port []"
  "attempts fd port (e # evs) \<longleftrightarrow> (\<exists>a l r. e = ev fd a l r \<and> port_ok port a) \<and> attempts fd port evs"
  by (auto simp: attempts_def)

lemma attempts_resources: "attempts fd port evs \<Longrightarrow> fd \<in> fds \<Longrightarrow> resources evs (fds, ls) = Some (fds, ls)"
  by (induction evs) (auto simp: uses)

lemma loop_log:
  "\<exists>evs. calls (snd (try_addrs (op api) fd port ais n)) = calls n @ evs \<and> attempts fd port evs"
proof (induction ais arbitrary: n)
  case (Cons ai ais)
  let ?in6 = "set_sin6_port (htons (word_of_int port)) (ai_addr ai)"
  let ?o = "op api fd ?in6 (ai_addrlen ai) n"
  have skip: "\<exists>evs. calls (snd (try_addrs (op api) fd port ais (n\<lparr>net_errno := e\<rparr>))) = calls n @ evs \<and> attempts fd port evs" for e
    using Cons.IH [of "n\<lparr>net_errno := e\<rparr>"] by simp
  obtain evs where "calls (snd (try_addrs (op api) fd port ais (snd ?o))) = calls (snd ?o) @ evs" "attempts fd port evs"
    using Cons.IH by blast
  then have tried: "port_ok port ?in6 \<Longrightarrow> \<exists>evs. calls (snd (try_addrs (op api) fd port ais (snd ?o))) = calls n @ evs
      \<and> attempts fd port evs"
    by (intro exI [of _ "ev fd ?in6 (ai_addrlen ai) (fst ?o) # evs"]) (auto simp: logs)
  have hit: "port_ok port ?in6 \<Longrightarrow> \<exists>evs. calls (snd ?o) = calls n @ evs \<and> attempts fd port evs"
    by (intro exI [of _ "[ev fd ?in6 (ai_addrlen ai) (fst ?o)]"]) (auto simp: logs)
  show ?case
    using skip Cons.IH [of n] tried hit set_port_ok [of port "ai_addr ai"]
    by (simp add: Let_def split_def)
qed simp

lemma loop_trace:
  assumes "0 \<le> port" and "port < 65536"
  shows "\<exists>rs. tried (usable ais) rs (fst (try_addrs (op api) fd port ais n))
    \<and> calls (snd (try_addrs (op api) fd port ais n))
      = calls n @ map2 (\<lambda>ai r. ev fd (with_port port ai) (ai_addrlen ai) r) (usable ais) rs"
proof (induction ais arbitrary: n)
  case (Cons ai ais)
  show ?case
  proof (cases "ai_family ai = AF_INET6 \<and> ai_socktype ai = SOCK_STREAM")
    case True
    let ?o = "op api fd (with_port port ai) (ai_addrlen ai) n"
    have use: "usable (ai # ais) = ai # usable ais" using True by (simp add: usable_def)
    have loop: "try_addrs (op api) fd port (ai # ais) n = (if fst ?o = 0 then (True, snd ?o) else try_addrs (op api) fd port ais (snd ?o))"
      using True port_roundtrip [of port "ai_addr ai"] assms by (simp add: Let_def split_def with_port_def)
    show ?thesis
    proof (cases "fst ?o = 0")
      case True
      then show ?thesis unfolding loop use by (intro exI [of _ "[0]"]) (simp add: tried_Cons logs)
    next
      case False
      from Cons.IH [of "snd ?o"] obtain rs where rs: "tried (usable ais) rs (fst (try_addrs (op api) fd port ais (snd ?o)))"
        "calls (snd (try_addrs (op api) fd port ais (snd ?o)))
          = calls (snd ?o) @ map2 (\<lambda>ai r. ev fd (with_port port ai) (ai_addrlen ai) r) (usable ais) rs" by blast
      then show ?thesis
        unfolding loop use using False tried_Cons(2) [OF False rs(1)] by (intro exI [of _ "fst ?o # rs"]) (simp add: logs)
    qed
  next
    case False
    then have "try_addrs (op api) fd port (ai # ais) n = try_addrs (op api) fd port ais n" "usable (ai # ais) = usable ais"
      by (auto simp: usable_def)
    then show ?thesis using Cons.IH [of n] by simp
  qed
qed (simp add: usable_def tried_def)

end

interpretation conn: attempt do_connect EConnect
  by unfold_locales (simp_all add: log_simps)

interpretation bnd: attempt do_bind EBind
  by unfold_locales (simp_all add: log_simps)

end
