(* ===== verification/NetworkProperties.thy ===== *)
theory NetworkProperties
  imports NetworkSpec
begin

text \<open>
  Properties of the socket helpers: what they leave open, which ports they use, which error
  they report, and which local address they build.
\<close>

section \<open>Descriptors and address lists\<close>

lemma tidy_case: "tidy n (case p of (x, y) \<Rightarrow> f x y) = tidy n (f (fst p) (snd p))"
  by (simp add: split_def)

lemma OpenSocket_tidy: "tidy n (OpenSocket api e addr len n)"
proof -
  let ?s = "do_socket api (sa_family addr) n"
  let ?c = "do_connect api (fst ?s) addr len (snd ?s)"
  consider "fst ?s < 0" | "\<not> fst ?s < 0" "fst ?c < 0" | "\<not> fst ?s < 0" "\<not> fst ?c < 0" by blast
  then show ?thesis
    by cases (simp_all add: OpenSocket_def socket_fail_def Let_def split_def tidy_def new_calls_def log_simps)
qed

lemma ListenSocket_tidy: "tidy n (ListenSocket api e addr len backlog n)"
proof -
  let ?s = "do_socket api (sa_family addr) n"
  let ?b = "do_bind api (fst ?s) addr len (snd ?s)"
  let ?l = "do_listen api (fst ?s) (backlog_arg backlog) (snd ?b)"
  consider "fst ?s < 0" | "\<not> fst ?s < 0" "fst ?b < 0" | "\<not> fst ?s < 0" "\<not> fst ?b < 0" "fst ?l < 0"
    | "\<not> fst ?s < 0" "\<not> fst ?b < 0" "\<not> fst ?l < 0" by blast
  then show ?thesis
    by cases (simp_all add: ListenSocket_def socket_fail_def Let_def split_def tidy_def new_calls_def log_simps)
qed

lemma early_tidy: "tidy n (-1, e, n\<lparr>net_errno := err\<rparr>)"
  by (simp add: tidy_def new_calls_def)

lemma OpenInet6_tidy: "tidy n (OpenInet6 api e name port n)"
proof -
  let ?s = "do_socket api AF_INET6 n"
  let ?g = "do_getaddrinfo api name None (inet_hints 0) (snd ?s)"
  consider "no_name name" | "\<not> no_name name" "fst ?s < 0" | err where "\<not> no_name name" "\<not> fst ?s < 0" "fst ?g = Inl err"
    | p ais where "\<not> no_name name" "\<not> fst ?s < 0" "fst ?g = Inr (p, ais)"
    by (metis prod.exhaust sum.exhaust)
  then show ?thesis
  proof cases
    case 4
    obtain evs where evs: "calls (snd (try_addrs (do_connect api) (fst ?s) port ais (snd ?g))) = calls (snd ?g) @ evs"
      "conn.attempts (fst ?s) port evs" using conn.loop_log by blast
    have res: "resources evs ({fst ?s}, {p}) = Some ({fst ?s}, {p})"
      by (rule conn.attempts_resources [OF evs(2)]) simp
    show ?thesis
      using 4 evs(1) res
      by (simp add: OpenInet6_def inet_fail_def Let_def split_def tidy_def new_calls_def log_simps resources_append)
  qed (simp_all add: OpenInet6_def inet_fail_def Let_def split_def tidy_def new_calls_def log_simps)
qed

text \<open>A helper that fails early, on the name alone, has done nothing.\<close>

lemma local_tidy:
  "tidy n (OpenLocal api stack e name n)" "tidy n (ListenLocal api stack e name backlog n)"
  by (simp_all add: OpenLocal_def ListenLocal_def early_tidy OpenSocket_tidy ListenSocket_tidy)

text \<open>C21: the socket helpers release what they take, whatever the system answers: \<open>OpenSocket\<close>,
  \<open>OpenLocal\<close>, \<open>OpenInet6\<close>, \<open>ListenSocket\<close> and \<open>ListenLocal\<close> use only descriptors they hold,
  close and free nothing twice, and leave open exactly the descriptor they return, and none
  when they fail; the address list is freed in every case.\<close>

theorem helpers_release_everything:
  "tidy n (OpenSocket api e addr len n)
   \<and> tidy n (OpenLocal api stack e name n)
   \<and> tidy n (OpenInet6 api e host port n)
   \<and> tidy n (ListenSocket api e addr len backlog n)
   \<and> tidy n (ListenLocal api stack e name backlog n)"
  by (intro conjI OpenSocket_tidy local_tidy OpenInet6_tidy ListenSocket_tidy)

lemma ListenInet6_balance:
  fixes n :: "'w net"
  assumes "evs = new_calls n (snd (snd (ListenInet6 api e name port backlog n)))"
  shows "if \<exists>fd b r. EListen fd b r \<in> set evs \<and> r < 0 then resources evs ({}, {}) = None
    else tidy n (ListenInet6 api e name port backlog n)"
proof -
  let ?s = "do_socket api AF_INET6 n"
  let ?g = "do_getaddrinfo api name (Some ''0'') (inet_hints AI_NUMERICSERV) (snd ?s)"
  consider "fst ?s < 0" | err where "\<not> fst ?s < 0" "fst ?g = Inl err"
    | p ais where "\<not> fst ?s < 0" "fst ?g = Inr (p, ais)"
    by (metis prod.exhaust sum.exhaust)
  then show ?thesis
  proof cases
    case 3
    let ?t = "try_addrs (do_bind api) (fst ?s) port ais (snd ?g)"
    obtain bs where bs: "calls (snd ?t) = calls (snd ?g) @ bs" "bnd.attempts (fst ?s) port bs"
      using bnd.loop_log by blast
    have res: "resources bs ({fst ?s}, {p}) = Some ({fst ?s}, {p})"
      by (rule bnd.attempts_resources [OF bs(2)]) simp
    have none: "EListen fd b r \<notin> set bs" for fd b r
      using bs(2) by (auto simp: bnd.attempts_def)
    show ?thesis
      using 3 bs(1) res none
      by (cases "fst ?t")
        (simp_all add: assms ListenInet6_def inet_fail_def Let_def split_def tidy_def new_calls_def log_simps resources_append)
  qed (simp_all add: assms ListenInet6_def inet_fail_def Let_def split_def tidy_def new_calls_def log_simps)
qed

text \<open>An example system: calls succeed, except the one whose name is given.\<close>

definition example_sockets :: "int \<Rightarrow> int \<Rightarrow> addrinfo list \<Rightarrow> unit sockets" where
  "example_sockets connect_result listen_result ais =
     \<lparr>sys_socket = (\<lambda>_ _ _ (e, w). (3, e, w)), sys_connect = (\<lambda>_ _ _ (e, w). (connect_result, 111, w)),
      sys_bind = (\<lambda>_ _ _ (e, w). (0, e, w)), sys_listen = (\<lambda>_ _ (e, w). (listen_result, 98, w)),
      sys_close = (\<lambda>_ (e, w). (0, 5, w)), sys_getaddrinfo = (\<lambda>_ _ _ (e, w). (Inr (7, ais), e, w)),
      sys_freeaddrinfo = (\<lambda>_ (e, w). ((), 6, w)), gai_strerror = (\<lambda>_. ''failure'')\<rparr>"

definition example_net :: "unit net" where
  "example_net = \<lparr>net_errno = 0, world = (), calls = []\<rparr>"

definition example_ai :: addrinfo where
  "example_ai = \<lparr>ai_family = AF_INET6, ai_socktype = SOCK_STREAM, ai_addrlen = 28,
     ai_addr = \<lparr>sa_family = AF_INET6, sa_data = replicate 26 NUL\<rparr>\<rparr>"

lemma example_calls:
  "do_socket (example_sockets c l ais) fam n = (3, n\<lparr>calls := calls n @ [ESocket fam SOCK_STREAM 0 3]\<rparr>)"
  "do_connect (example_sockets c l ais) fd a len n = (c, n\<lparr>net_errno := 111, calls := calls n @ [EConnect fd a len c]\<rparr>)"
  "do_bind (example_sockets c l ais) fd a len n = (0, n\<lparr>calls := calls n @ [EBind fd a len 0]\<rparr>)"
  "do_listen (example_sockets c l ais) fd b n = (l, n\<lparr>net_errno := 98, calls := calls n @ [EListen fd b l]\<rparr>)"
  "do_close (example_sockets c l ais) fd n = (0, n\<lparr>net_errno := 5, calls := calls n @ [EClose fd]\<rparr>)"
  "do_getaddrinfo (example_sockets c l ais) nm sv h n
     = (Inr (7, ais), n\<lparr>calls := calls n @ [EGetaddrinfo nm sv h (Inr 7)]\<rparr>)"
  "do_freeaddrinfo (example_sockets c l ais) p n = n\<lparr>net_errno := 6, calls := calls n @ [EFreeaddrinfo p]\<rparr>"
  by (simp_all add: example_sockets_def do_socket_def do_connect_def do_bind_def do_listen_def do_close_def
      do_getaddrinfo_def do_freeaddrinfo_def syscall_def)

lemma example_calls_Nil: "calls example_net = []"
  by (simp add: example_net_def)

lemma example_bind:
  "try_addrs (do_bind (example_sockets c l ais)) 3 80 [example_ai] n
     = (True, n\<lparr>calls := calls n @ [EBind 3 (set_sin6_port (htons 80) (ai_addr example_ai)) 28 0]\<rparr>)"
  using port_roundtrip [of 80 "ai_addr example_ai"] by (simp add: Let_def example_calls) (simp add: example_ai_def)

text \<open>C28: \<open>ListenInet6\<close> frees its address list twice exactly when \<open>listen\<close> fails, after the list
  has already been freed and \<open>addrs\<close> not been reset; in every other case it releases
  everything once, like the other helpers.\<close>

theorem ListenInet6_double_free:
  assumes "evs = new_calls n (snd (snd (ListenInet6 api e name port backlog n)))"
  shows "if \<exists>fd b r. EListen fd b r \<in> set evs \<and> r < 0 then resources evs ({}, {}) = None
    else resources evs ({}, {}) \<noteq> None \<and> tidy n (ListenInet6 api e name port backlog n)"
  using ListenInet6_balance [OF assms] by (auto simp: tidy_def assms split_def split: if_splits)

theorem ListenInet6_double_free_witness:
  "resources (new_calls example_net
     (snd (snd (ListenInet6 (example_sockets 0 (-1) [example_ai]) None None 80 0 example_net)))) ({}, {}) = None
   \<and> tidy example_net (ListenInet6 (example_sockets 0 0 [example_ai]) None None 80 0 example_net)"
proof -
  let ?bad = "ListenInet6 (example_sockets 0 (-1) [example_ai]) None None 80 0 example_net"
  let ?good = "ListenInet6 (example_sockets 0 0 [example_ai]) None None 80 0 example_net"
  have "\<exists>fd b r. EListen fd b r \<in> set (new_calls example_net (snd (snd ?bad))) \<and> r < 0"
    "\<not> (\<exists>fd b r. EListen fd b r \<in> set (new_calls example_net (snd (snd ?good))) \<and> r < 0)"
    by (auto simp: ListenInet6_def example_bind example_calls inet_fail_def new_calls_def example_net_def
        simp del: try_addrs.simps)
  then show ?thesis
    using ListenInet6_double_free [OF refl, of example_net "example_sockets 0 (-1) [example_ai]" None None 80 0]
      ListenInet6_double_free [OF refl, of example_net "example_sockets 0 0 [example_ai]" None None 80 0]
    by (simp only: if_True if_False)
qed

section \<open>Ports\<close>

text \<open>The calls that carry an address, and what they must satisfy.\<close>

fun on_port :: "int \<Rightarrow> sys_event \<Rightarrow> bool" where
  "on_port port (EConnect fd a l r) = port_ok port a"
| "on_port port (EBind fd a l r) = port_ok port a"
| "on_port port _ = True"

lemma attempts_on_port:
  "conn.attempts fd port evs \<Longrightarrow> list_all (on_port port) evs"
  "bnd.attempts fd port evs \<Longrightarrow> list_all (on_port port) evs"
  by (auto simp: conn.attempts_def bnd.attempts_def list_all_iff)

lemma OpenInet6_on_port: "list_all (on_port port) (new_calls n (snd (snd (OpenInet6 api e name port n))))"
proof -
  let ?s = "do_socket api AF_INET6 n"
  let ?g = "do_getaddrinfo api name None (inet_hints 0) (snd ?s)"
  consider "no_name name" | "\<not> no_name name" "fst ?s < 0" | err where "\<not> no_name name" "\<not> fst ?s < 0" "fst ?g = Inl err"
    | p ais where "\<not> no_name name" "\<not> fst ?s < 0" "fst ?g = Inr (p, ais)"
    by (metis prod.exhaust sum.exhaust)
  then show ?thesis
  proof cases
    case 4
    obtain evs where "calls (snd (try_addrs (do_connect api) (fst ?s) port ais (snd ?g))) = calls (snd ?g) @ evs"
      "conn.attempts (fst ?s) port evs" using conn.loop_log by blast
    then show ?thesis
      using 4 attempts_on_port(1)
      by (simp add: OpenInet6_def inet_fail_def Let_def split_def new_calls_def log_simps)
  qed (simp_all add: OpenInet6_def inet_fail_def Let_def split_def new_calls_def log_simps)
qed

lemma ListenInet6_on_port:
  "list_all (on_port port) (new_calls n (snd (snd (ListenInet6 api e name port backlog n))))"
proof -
  let ?s = "do_socket api AF_INET6 n"
  let ?g = "do_getaddrinfo api name (Some ''0'') (inet_hints AI_NUMERICSERV) (snd ?s)"
  consider "fst ?s < 0" | err where "\<not> fst ?s < 0" "fst ?g = Inl err"
    | p ais where "\<not> fst ?s < 0" "fst ?g = Inr (p, ais)"
    by (metis prod.exhaust sum.exhaust)
  then show ?thesis
  proof cases
    case 3
    obtain evs where "calls (snd (try_addrs (do_bind api) (fst ?s) port ais (snd ?g))) = calls (snd ?g) @ evs"
      "bnd.attempts (fst ?s) port evs" using bnd.loop_log by blast
    then show ?thesis
      using 3 attempts_on_port(2)
      by (simp add: ListenInet6_def inet_fail_def Let_def split_def new_calls_def log_simps)
  qed (simp_all add: ListenInet6_def inet_fail_def Let_def split_def new_calls_def log_simps)
qed

lemma try_addrs_bad_port:
  "\<not> (0 \<le> port \<and> port < 65536)
   \<Longrightarrow> try_addrs probe fd port ais n
      = (False, if \<exists>ai \<in> set ais. ai_family ai = AF_INET6 \<and> ai_socktype ai = SOCK_STREAM
                then n\<lparr>net_errno := ERR_INVAL\<rparr> else n)"
  using port_roundtrip [of port] by (induction ais arbitrary: n) (auto simp: Let_def)

lemma bad_port_fails:
  assumes "\<not> (0 \<le> port \<and> port < 65536)"
  shows "fst (OpenInet6 api e name port n) = -1" "fst (ListenInet6 api e name port backlog n) = -1"
  using assms by (simp_all add: OpenInet6_def ListenInet6_def inet_fail_def Let_def try_addrs_bad_port split: prod.split sum.split)

lemma bad_port_errno:
  assumes "\<not> (0 \<le> port \<and> port < 65536)" and "do_socket api AF_INET6 n = (s, n1)" and "0 \<le> s"
  shows "\<not> no_name name \<Longrightarrow> do_getaddrinfo api name None (inet_hints 0) n1 = (Inr (p, ais), n2)
      \<Longrightarrow> \<exists>n'. OpenInet6 api e name port n = (-1, set_errstr ''connecting'' e, n')
        \<and> net_errno n' = (if \<exists>ai \<in> set ais. ai_family ai = AF_INET6 \<and> ai_socktype ai = SOCK_STREAM
            then ERR_INVAL else net_errno n2)"
    and "do_getaddrinfo api name (Some ''0'') (inet_hints AI_NUMERICSERV) n1 = (Inr (p, ais), n2)
      \<Longrightarrow> \<exists>n'. ListenInet6 api e name port backlog n = (-1, set_errstr ''binding socket'' e, n')
        \<and> net_errno n' = (if \<exists>ai \<in> set ais. ai_family ai = AF_INET6 \<and> ai_socktype ai = SOCK_STREAM
            then ERR_INVAL else net_errno n2)"
  using assms by (auto simp: OpenInet6_def ListenInet6_def inet_fail_def Let_def try_addrs_bad_port)

text \<open>C24: the port: \<open>OpenInet6\<close> connects and \<open>ListenInet6\<close> binds only to addresses that carry
  exactly the port asked for, in network byte order, and only for ports from 0 to 65535.
  Another port is never truncated: both fail, without any attempt to connect or to bind. Where
  the lookup gives a list, the error is that of a list whose addresses have all been refused,
  with EINVAL if there was an address to try, and with the \<open>errno\<close> the lookup left behind
  if there was none.\<close>

theorem inet6_port_exact:
  shows "(EConnect fd a l r \<in> set (new_calls n (snd (snd (OpenInet6 api e name port n)))) \<longrightarrow> port_ok port a)
    \<and> (EBind fd a l r \<in> set (new_calls n (snd (snd (ListenInet6 api e name port backlog n)))) \<longrightarrow> port_ok port a)
    \<and> (\<not> (0 \<le> port \<and> port < 65536) \<longrightarrow>
        fst (OpenInet6 api e name port n) = -1 \<and> fst (ListenInet6 api e name port backlog n) = -1
        \<and> EConnect fd a l r \<notin> set (new_calls n (snd (snd (OpenInet6 api e name port n))))
        \<and> EBind fd a l r \<notin> set (new_calls n (snd (snd (ListenInet6 api e name port backlog n)))))
    \<and> (\<not> (0 \<le> port \<and> port < 65536) \<and> \<not> no_name name \<and> do_socket api AF_INET6 n = (s, n1) \<and> 0 \<le> s
        \<and> do_getaddrinfo api name None (inet_hints 0) n1 = (Inr (p, ais), n2)
      \<longrightarrow> (\<exists>n'. OpenInet6 api e name port n = (-1, set_errstr ''connecting'' e, n')
        \<and> net_errno n' = (if \<exists>ai \<in> set ais. ai_family ai = AF_INET6 \<and> ai_socktype ai = SOCK_STREAM
            then ERR_INVAL else net_errno n2)))
    \<and> (\<not> (0 \<le> port \<and> port < 65536) \<and> do_socket api AF_INET6 n = (s, n1) \<and> 0 \<le> s
        \<and> do_getaddrinfo api name (Some ''0'') (inet_hints AI_NUMERICSERV) n1 = (Inr (p, ais), n2)
      \<longrightarrow> (\<exists>n'. ListenInet6 api e name port backlog n = (-1, set_errstr ''binding socket'' e, n')
        \<and> net_errno n' = (if \<exists>ai \<in> set ais. ai_family ai = AF_INET6 \<and> ai_socktype ai = SOCK_STREAM
            then ERR_INVAL else net_errno n2)))"
proof -
  have opened: "EConnect fd a l r \<in> set (new_calls n (snd (snd (OpenInet6 api e name port n)))) \<longrightarrow> port_ok port a"
    using OpenInet6_on_port [of port n api e name] unfolding list_all_iff by fastforce
  have bound: "EBind fd a l r \<in> set (new_calls n (snd (snd (ListenInet6 api e name port backlog n)))) \<longrightarrow> port_ok port a"
    using ListenInet6_on_port [of port n api e name backlog] unfolding list_all_iff by fastforce
  have "\<not> port_ok port a" if "\<not> (0 \<le> port \<and> port < 65536)" using that by (auto simp: port_ok_def)
  then show ?thesis
    using opened bound bad_port_fails [of port] by (intro conjI impI; (elim conjE)?) (blast intro: bad_port_errno)+
qed

lemma example_hit:
  "OpenInet6 (example_sockets 0 0 [example_ai]) None (Some ''h'') 80 example_net
   = (3, None, \<lparr>net_errno = 6, world = (), calls = [ESocket AF_INET6 SOCK_STREAM 0 3,
       EGetaddrinfo (Some ''h'') None (inet_hints 0) (Inr 7),
       EConnect 3 (set_sin6_port (htons 80) (ai_addr example_ai)) 28 0, EFreeaddrinfo 7]\<rparr>)"
proof -
  have "try_addrs (do_connect (example_sockets 0 0 [example_ai])) 3 80 [example_ai] n
     = (True, n\<lparr>net_errno := 111, calls := calls n @ [EConnect 3 (set_sin6_port (htons 80) (ai_addr example_ai)) 28 0]\<rparr>)" for n
    using port_roundtrip [of 80 "ai_addr example_ai"] by (simp add: Let_def example_calls) (simp add: example_ai_def)
  then show ?thesis
    by (simp add: OpenInet6_def no_name_def c_extent_def example_calls example_net_def del: try_addrs.simps)
qed

theorem inet6_port_exact_witness:
  "port_ok 80 (set_sin6_port (htons 80) (ai_addr example_ai))
   \<and> (\<exists>n'. OpenInet6 (example_sockets 0 0 [example_ai]) (Some None) (Some ''h'') 65616 example_net
        = (-1, Some (Some ''connecting''), n') \<and> net_errno n' = ERR_INVAL)
   \<and> (\<exists>n'. ListenInet6 (example_sockets 0 0 [example_ai]) (Some None) (Some ''h'') (-1) 5 example_net
        = (-1, Some (Some ''binding socket''), n') \<and> net_errno n' = ERR_INVAL)"
proof (intro conjI)
  show "port_ok 80 (set_sin6_port (htons 80) (ai_addr example_ai))"
    using inet6_port_exact [of 3 _ 28 0 example_net "example_sockets 0 0 [example_ai]" None "Some ''h''" 80]
    by (simp add: example_hit new_calls_def example_calls_Nil)
  show "\<exists>n'. OpenInet6 (example_sockets 0 0 [example_ai]) (Some None) (Some ''h'') 65616 example_net
        = (-1, Some (Some ''connecting''), n') \<and> net_errno n' = ERR_INVAL"
    using inet6_port_exact [of 3 undefined 28 0 example_net "example_sockets 0 0 [example_ai]" "Some None" "Some ''h''" 65616 0 3 _ 7 "[example_ai]"]
    by (simp add: example_calls no_name_def c_extent_def set_errstr_def) (simp add: example_ai_def)
  show "\<exists>n'. ListenInet6 (example_sockets 0 0 [example_ai]) (Some None) (Some ''h'') (-1) 5 example_net
        = (-1, Some (Some ''binding socket''), n') \<and> net_errno n' = ERR_INVAL"
    using inet6_port_exact [of 3 undefined 28 0 example_net "example_sockets 0 0 [example_ai]" "Some None" "Some ''h''" "-1" 5 3 _ 7 "[example_ai]"]
    by (simp add: example_calls set_errstr_def) (simp add: example_ai_def)
qed

section \<open>The order of the attempts\<close>

text \<open>C26: \<open>OpenInet6\<close> tries the stream addresses of the list in order, each with the port asked
  for, on one descriptor, until one accepts: it returns the descriptor then, and -1 when all
  have refused, with the \<open>errno\<close> the last attempt left and not that of the calls that clean
  up; the list is freed in both cases, and the descriptor is closed in the second.\<close>

theorem inet6_tries_in_order:
  assumes "\<not> no_name name" and "do_socket api AF_INET6 n = (fd, n1)" and "0 \<le> fd"
    and "do_getaddrinfo api name None (inet_hints 0) n1 = (Inr (p, ais), n2)" and "0 \<le> port" and "port < 65536"
    and "try_addrs (do_connect api) fd port ais n2 = (ok, n3)" and "OpenInet6 api e name port n = (fd', e', n')"
  shows "\<exists>rs. tried (usable ais) rs ok
    \<and> new_calls n n' = [ESocket AF_INET6 SOCK_STREAM 0 fd, EGetaddrinfo name None (inet_hints 0) (Inr p)]
        @ map2 (\<lambda>ai r. EConnect fd (with_port port ai) (ai_addrlen ai) r) (usable ais) rs
        @ (if ok then [EFreeaddrinfo p] else [EClose fd, EFreeaddrinfo p])
    \<and> fd' = (if ok then fd else -1) \<and> e' = (if ok then e else set_errstr ''connecting'' e)
    \<and> (\<not> ok \<longrightarrow> net_errno n' = net_errno n3)"
proof -
  obtain rs where rs: "tried (usable ais) rs ok"
    "calls n3 = calls n2 @ map2 (\<lambda>ai r. EConnect fd (with_port port ai) (ai_addrlen ai) r) (usable ais) rs"
    using conn.loop_trace [OF assms(5,6), of ais api fd n2] assms(7) by auto
  have logs: "calls n1 = calls n @ [ESocket AF_INET6 SOCK_STREAM 0 fd]"
    "calls n2 = calls n1 @ [EGetaddrinfo name None (inet_hints 0) (Inr p)]"
    using calls_do(1) [of api AF_INET6 n] calls_do(6) [of api name None "inet_hints 0" n1] assms(2,4) by simp_all
  have "OpenInet6 api e name port n = (if ok then (fd, e, do_freeaddrinfo api p n3) else inet_fail api ''connecting'' e fd (Some p) n3)"
    using assms(1-4,7) by (simp add: OpenInet6_def)
  then show ?thesis
    using rs logs assms(3,8)
    by (intro exI [of _ rs]) (cases ok; auto simp: inet_fail_def Let_def new_calls_def log_simps)
qed

text \<open>Two addresses, of which the system of the example refuses both.\<close>

lemma example_refused:
  "fst (try_addrs (do_connect (example_sockets (-1) l as)) 3 80 [example_ai, example_ai] n) = False"
  "net_errno (snd (try_addrs (do_connect (example_sockets (-1) l as)) 3 80 [example_ai, example_ai] n)) = 111"
proof -
  have ai: "ai_family example_ai = AF_INET6" "ai_socktype example_ai = SOCK_STREAM" by (simp_all add: example_ai_def)
  have port: "uint (ntohs (sin6_port (set_sin6_port (htons 80) (ai_addr example_ai)))) = 80"
    using port_roundtrip [of 80 "ai_addr example_ai"] by simp
  show "fst (try_addrs (do_connect (example_sockets (-1) l as)) 3 80 [example_ai, example_ai] n) = False"
    "net_errno (snd (try_addrs (do_connect (example_sockets (-1) l as)) 3 80 [example_ai, example_ai] n)) = 111"
    by (simp_all add: ai port example_calls Let_def)
qed

theorem inet6_tries_in_order_witness:
  "\<exists>rs n'. length rs = 2 \<and> 0 \<notin> set rs \<and> OpenInet6 (example_sockets (-1) 0 [example_ai, example_ai]) (Some None) (Some ''h'') 80 example_net
       = (-1, Some (Some ''connecting''), n')
     \<and> new_calls example_net n' = [ESocket AF_INET6 SOCK_STREAM 0 3, EGetaddrinfo (Some ''h'') None (inet_hints 0) (Inr 7)]
         @ map2 (\<lambda>ai r. EConnect 3 (with_port 80 ai) (ai_addrlen ai) r) (usable [example_ai, example_ai]) rs
         @ [EClose 3, EFreeaddrinfo 7] \<and> net_errno n' = 111"
proof -
  let ?api = "example_sockets (-1) 0 [example_ai, example_ai]"
  have use: "usable [example_ai, example_ai] = [example_ai, example_ai]" by (simp add: usable_def example_ai_def)
  obtain n1 n2 where n: "do_socket ?api AF_INET6 example_net = (3, n1)"
    "do_getaddrinfo ?api (Some ''h'') None (inet_hints 0) n1 = (Inr (7, [example_ai, example_ai]), n2)"
    by (simp add: example_calls)
  obtain ok n3 where t: "try_addrs (do_connect ?api) 3 80 [example_ai, example_ai] n2 = (ok, n3)" by fastforce
  have ok: "ok = False" "net_errno n3 = 111"
    using t example_refused [of 0 "[example_ai, example_ai]" n2] by (simp_all del: try_addrs.simps)
  obtain fd' e' n' where o: "OpenInet6 ?api (Some None) (Some ''h'') 80 example_net = (fd', e', n')" by (metis prod_cases3)
  have "\<not> no_name (Some ''h'')" by (simp add: no_name_def c_extent_def)
  from inet6_tries_in_order [OF this n(1) _ n(2) _ _ t o] ok use o
  obtain rs where "tried [example_ai, example_ai] rs False" "fd' = -1" "e' = Some (Some ''connecting'')" "net_errno n' = 111"
    "new_calls example_net n' = [ESocket AF_INET6 SOCK_STREAM 0 3, EGetaddrinfo (Some ''h'') None (inet_hints 0) (Inr 7)]
       @ map2 (\<lambda>ai r. EConnect 3 (with_port 80 ai) (ai_addrlen ai) r) [example_ai, example_ai] rs @ [EClose 3, EFreeaddrinfo 7]"
    by (auto simp: set_errstr_def)
  then show ?thesis
    using o unfolding use by (intro exI [of _ rs] exI [of _ n']) (simp add: tried_def)
qed

text \<open>C31: \<open>ListenInet6\<close> binds one descriptor to the stream addresses of the list in order, each with
  the port asked for, until one is accepted, and only then listens, with the backlog asked for
  or 17; what it returns, the error string and the \<open>errno\<close> are those of the step that failed, and
  the log shows what is released at each exit, the second release of the list included.\<close>

theorem listen_tries_in_order:
  assumes "do_socket api AF_INET6 n = (fd, n1)" and "0 \<le> fd"
    and "do_getaddrinfo api name (Some ''0'') (inet_hints AI_NUMERICSERV) n1 = (Inr (p, ais), n2)"
    and "0 \<le> port" and "port < 65536" and "try_addrs (do_bind api) fd port ais n2 = (ok, n3)"
    and "do_listen api fd (backlog_arg backlog) (do_freeaddrinfo api p n3) = (lr, n4)"
    and "ListenInet6 api e name port backlog n = (fd', e', n')"
  shows "\<exists>rs. tried (usable ais) rs ok
    \<and> new_calls n n' = [ESocket AF_INET6 SOCK_STREAM 0 fd,
          EGetaddrinfo name (Some ''0'') (inet_hints AI_NUMERICSERV) (Inr p)]
        @ map2 (\<lambda>ai r. EBind fd (with_port port ai) (ai_addrlen ai) r) (usable ais) rs
        @ (if ok then [EFreeaddrinfo p, EListen fd (if backlog = 0 then 17 else sint backlog) lr] else [])
        @ (if ok \<and> 0 \<le> lr then [] else [EClose fd, EFreeaddrinfo p])
    \<and> fd' = (if ok \<and> 0 \<le> lr then fd else -1)
    \<and> e' = (if \<not> ok then set_errstr ''binding socket'' e else if lr < 0 then set_errstr ''listening socket'' e else e)
    \<and> (\<not> ok \<longrightarrow> net_errno n' = net_errno n3) \<and> (ok \<longrightarrow> net_errno n' = net_errno n4)"
proof -
  obtain rs where rs: "tried (usable ais) rs ok"
    "calls n3 = calls n2 @ map2 (\<lambda>ai r. EBind fd (with_port port ai) (ai_addrlen ai) r) (usable ais) rs"
    using bnd.loop_trace [OF assms(4,5), of ais api fd n2] assms(6) by auto
  have backlog: "backlog_arg backlog = (if backlog = 0 then 17 else sint backlog)" by (simp add: backlog_arg_def)
  have logs: "calls n1 = calls n @ [ESocket AF_INET6 SOCK_STREAM 0 fd]"
    "calls n2 = calls n1 @ [EGetaddrinfo name (Some ''0'') (inet_hints AI_NUMERICSERV) (Inr p)]"
    "calls n4 = calls n3 @ [EFreeaddrinfo p, EListen fd (backlog_arg backlog) lr]"
    using calls_do(1) [of api AF_INET6 n] calls_do(6) [of api name "Some ''0''" "inet_hints AI_NUMERICSERV" n1]
      calls_do(4) [of api fd "backlog_arg backlog" "do_freeaddrinfo api p n3"] calls_do(7) [of api p n3] assms(1,3,7) by simp_all
  have "ListenInet6 api e name port backlog n =
      (if \<not> ok then inet_fail api ''binding socket'' e fd (Some p) n3
       else if lr < 0 then inet_fail api ''listening socket'' e fd (Some p) n4 else (fd, e, n4))"
    using assms(1-3,6,7) by (simp add: ListenInet6_def)
  then show ?thesis
    using rs logs assms(2,8) unfolding backlog
    by (intro exI [of _ rs]) (cases ok; cases "lr < 0"; auto simp: inet_fail_def Let_def new_calls_def log_simps)
qed

theorem listen_tries_in_order_witness:
  "\<exists>rs n'. tried (usable [example_ai]) rs True \<and> ListenInet6 (example_sockets 0 (-1) [example_ai]) (Some None) None 80 5 example_net
       = (-1, Some (Some ''listening socket''), n')
     \<and> new_calls example_net n' = [ESocket AF_INET6 SOCK_STREAM 0 3, EGetaddrinfo None (Some ''0'') (inet_hints AI_NUMERICSERV) (Inr 7)]
         @ map2 (\<lambda>ai r. EBind 3 (with_port 80 ai) (ai_addrlen ai) r) (usable [example_ai]) rs
         @ [EFreeaddrinfo 7, EListen 3 5 (-1), EClose 3, EFreeaddrinfo 7] \<and> net_errno n' = 98"
proof -
  let ?api = "example_sockets 0 (-1) [example_ai]"
  obtain n1 n2 where n: "do_socket ?api AF_INET6 example_net = (3, n1)"
    "do_getaddrinfo ?api None (Some ''0'') (inet_hints AI_NUMERICSERV) n1 = (Inr (7, [example_ai]), n2)"
    by (simp add: example_calls)
  obtain n3 where t: "try_addrs (do_bind ?api) 3 80 [example_ai] n2 = (True, n3)" using example_bind by blast
  obtain n4 where l: "do_listen ?api 3 (backlog_arg 5) (do_freeaddrinfo ?api 7 n3) = (-1, n4)" "net_errno n4 = 98"
    by (simp add: example_calls)
  obtain fd' e' n' where o: "ListenInet6 ?api (Some None) None 80 5 example_net = (fd', e', n')" by (metis prod_cases3)
  from listen_tries_in_order [OF n(1) _ n(2) _ _ t l(1) o] l(2) o show ?thesis by (auto simp: set_errstr_def)
qed

section \<open>Local names\<close>

text \<open>
  How the system reads a local address (unix(7)): a path up to its NUL, or, when the first
  byte is NUL, an abstract name that consists of all the remaining bytes.
\<close>

datatype unix_name = Path bytes | Abstract bytes

definition unix_name_of :: "sockaddr \<Rightarrow> nat \<Rightarrow> unix_name" where
  "unix_name_of a len =
     (let path = take (len - 2) (sa_data a)
      in if hd path = NUL then Abstract (tl path) else Path (takeWhile (\<lambda>c. c \<noteq> NUL) path))"

lemma c_extent_no_NUL: "NUL \<notin> set (c_extent s None)"
  by (auto simp: c_extent_def dest: set_takeWhileD)

lemma local_address_name:
  assumes "length stack = sun_path_size" and "length (c_extent name None) < sun_path_size"
  shows "unix_name_of (local_address stack name) sizeof_sockaddr_un
    = (if c_extent name None = [] then Abstract (tl stack) else Path (c_extent name None))"
proof -
  let ?n = "c_extent name None"
  have "length (?n @ [NUL] @ drop (length ?n + 1) stack) = sun_path_size" using assms by simp
  then have path: "take (sizeof_sockaddr_un - 2) (sa_data (local_address stack name)) = ?n @ [NUL] @ drop (length ?n + 1) stack"
    by (simp add: local_address_def sizeof_sockaddr_un_def)
  show ?thesis
    using c_extent_no_NUL [of name] unfolding unix_name_of_def path
    by (cases ?n) (auto simp: drop_Suc takeWhile_append)
qed

lemma OpenSocket_address: "EConnect fd a l r \<in> set (new_calls n (snd (snd (OpenSocket api e addr len n)))) \<Longrightarrow> a = addr \<and> l = len"
proof -
  let ?s = "do_socket api (sa_family addr) n"
  let ?c = "do_connect api (fst ?s) addr len (snd ?s)"
  consider "fst ?s < 0" | "\<not> fst ?s < 0" "fst ?c < 0" | "\<not> fst ?s < 0" "\<not> fst ?c < 0" by blast
  then show "EConnect fd a l r \<in> set (new_calls n (snd (snd (OpenSocket api e addr len n)))) \<Longrightarrow> a = addr \<and> l = len"
    by cases (simp_all add: OpenSocket_def socket_fail_def Let_def split_def new_calls_def log_simps)
qed

lemma ListenSocket_address:
  "EBind fd a l r \<in> set (new_calls n (snd (snd (ListenSocket api e addr len backlog n)))) \<Longrightarrow> a = addr \<and> l = len"
proof -
  let ?s = "do_socket api (sa_family addr) n"
  let ?b = "do_bind api (fst ?s) addr len (snd ?s)"
  let ?l = "do_listen api (fst ?s) (backlog_arg backlog) (snd ?b)"
  consider "fst ?s < 0" | "\<not> fst ?s < 0" "fst ?b < 0" | "\<not> fst ?s < 0" "\<not> fst ?b < 0" "fst ?l < 0"
    | "\<not> fst ?s < 0" "\<not> fst ?b < 0" "\<not> fst ?l < 0" by blast
  then show "EBind fd a l r \<in> set (new_calls n (snd (snd (ListenSocket api e addr len backlog n)))) \<Longrightarrow> a = addr \<and> l = len"
    by cases (simp_all add: ListenSocket_def socket_fail_def Let_def split_def new_calls_def log_simps)
qed

text \<open>C35: local sockets: \<open>OpenLocal\<close> connects and \<open>ListenLocal\<close> binds to the path named, whatever
  was on the stack; but an empty name stands for the abstract name formed by the 107 bytes of
  uninitialised stack after it. A name of 108 characters or more is refused with ENAMETOOLONG
  before any system call, without setting the error string.\<close>

theorem local_names:
  assumes "length stack = sun_path_size"
  shows "(EConnect fd a l r \<in> set (new_calls n (snd (snd (OpenLocal api stack e name n))))
      \<or> EBind fd a l r \<in> set (new_calls n (snd (snd (ListenLocal api stack e name backlog n))))
      \<longrightarrow> unix_name_of a l = (if c_extent name None = [] then Abstract (tl stack) else Path (c_extent name None)))
    \<and> (sun_path_size \<le> length (c_extent name None)
      \<longrightarrow> OpenLocal api stack e name n = (-1, e, n\<lparr>net_errno := ERR_NAMETOOLONG\<rparr>)
        \<and> ListenLocal api stack e name backlog n = (-1, e, n\<lparr>net_errno := ERR_NAMETOOLONG\<rparr>))"
  using OpenSocket_address [of fd a l r n api e "local_address stack name" sizeof_sockaddr_un]
    ListenSocket_address [of fd a l r n api e "local_address stack name" sizeof_sockaddr_un backlog] assms
  by (auto simp: OpenLocal_def ListenLocal_def local_address_name new_calls_def split: if_splits)

theorem local_names_witness:
  "\<exists>a l. EConnect 3 a l 0 \<in> set (new_calls example_net
       (snd (snd (OpenLocal (example_sockets 0 0 []) (replicate sun_path_size CHR ''x'') None [] example_net))))
     \<and> unix_name_of a l = Abstract (replicate 107 CHR ''x'')"
proof -
  let ?stack = "replicate sun_path_size CHR ''x''"
  have "EConnect 3 (local_address ?stack []) sizeof_sockaddr_un 0 \<in> set (new_calls example_net
      (snd (snd (OpenLocal (example_sockets 0 0 []) ?stack None [] example_net))))"
    by (simp add: OpenLocal_def OpenSocket_def example_calls example_calls_Nil new_calls_def c_extent_def sun_path_size_def)
  moreover from this have "unix_name_of (local_address ?stack []) sizeof_sockaddr_un = Abstract (replicate 107 CHR ''x'')"
    using local_names [of ?stack 3 "local_address ?stack []" sizeof_sockaddr_un 0 example_net "example_sockets 0 0 []" None "[]"]
    by (simp add: c_extent_def sun_path_size_def)
  ultimately show ?thesis by blast
qed

end
