(* ===== verification/Fatal.thy ===== *)
theory Fatal
  imports BufferWrite
begin

text \<open>
  The fatal error handler (\<open>fatal.cc\<close>, \<open>internal.hh\<close>): source locations, \<open>Assert\<close> and
  \<open>Unreachable\<close>, the message \<open>HCF\<close> prints before it kills the process, and the build note.
  What the build defines (\<open>SRCDIR\<close>, the package strings, whether checking is on) is a
  record.
\<close>

section \<open>Locations and the build\<close>

text \<open>\<open>None\<close> is a null \<open>file\<close>; a string is without its terminating NUL.\<close>

record Location =
  loc_file :: "bytes option"
  loc_line :: "32 word"

definition Location_make :: "bytes option \<Rightarrow> 32 word \<Rightarrow> Location" where
  "Location_make f l = \<lparr>loc_file = f, loc_line = l\<rparr>"

definition File :: "Location \<Rightarrow> bytes option" where
  "File loc = loc_file loc"

definition Line :: "Location \<Rightarrow> 32 word" where
  "Line loc = loc_line loc"

lemma Location_make_fields [simp]: "File (Location_make f l) = f" "Line (Location_make f l) = l"
  by (simp_all add: Location_make_def File_def Line_def)

record build =
  NMS_CHECKING :: bool
  OPTIMIZE :: bool
  SRCDIR :: bytes
  PACKAGE_NAME :: bytes
  PACKAGE_VERSION :: bytes
  PACKAGE_URL :: bytes
  BUGURL :: bytes
  REVISION :: bytes

text \<open>What the handler does, in order: output on \<open>stderr\<close>, then the two ways to end the process.\<close>

datatype fatal_act = Stderr bytes | Raise int | Exit int

definition SIGABRT :: int where
  "SIGABRT = 6"

section \<open>The handler\<close>

text \<open>
  The result \<open>!strncmp (s, t, n)\<close>: the first \<open>n\<close> characters agree, or both strings end
  before. The end of a list is the terminating NUL.
\<close>

definition c_hd :: "bytes \<Rightarrow> char" where
  "c_hd s = (case s of [] \<Rightarrow> NUL | c # _ \<Rightarrow> c)"

fun strncmp_eq :: "bytes \<Rightarrow> bytes \<Rightarrow> nat \<Rightarrow> bool" where
  "strncmp_eq s t 0 = True"
| "strncmp_eq s t (Suc n) =
     (if c_hd s \<noteq> c_hd t then False
      else if c_hd s = NUL then True
      else strncmp_eq (tl s) (tl t) n)"

definition relative_file :: "bytes \<Rightarrow> bytes \<Rightarrow> bytes" where
  "relative_file src fname =
     (if src \<noteq> [] then
        (let l = length src
         in if strncmp_eq src fname l \<and> c_hd (drop l fname) = CHR ''/'' then drop (l + 1) fname else fname)
      else fname)"

definition HCF :: "build \<Rightarrow> bytes option \<Rightarrow> Location \<Rightarrow> fatal_act list" where
  "HCF cfg msg loc =
     (let loc = (if NMS_CHECKING cfg then loc else Location_make None 0)
      in [Stderr (''CODYlib: '' @ (case msg of Some m \<Rightarrow> m | None \<Rightarrow> ''internal error''))]
         @ (case File loc of
              Some fname \<Rightarrow> [Stderr ('' at '' @ relative_file (SRCDIR cfg) fname @ '':'' @ to_string (unat (Line loc)))]
            | None \<Rightarrow> [])
         @ [Stderr [NL], Raise SIGABRT, Exit 2])"

definition AssertFailed :: "build \<Rightarrow> Location \<Rightarrow> fatal_act list" where
  "AssertFailed cfg loc = HCF cfg (Some ''assertion failed'') loc"

text \<open>Without checking, \<open>Unreachable\<close> is undefined behaviour (\<open>None\<close>).\<close>

definition Unreachable :: "build \<Rightarrow> Location \<Rightarrow> fatal_act list option" where
  "Unreachable cfg loc =
     (if NMS_CHECKING cfg then Some (HCF cfg (Some ''unreachable reached'') loc) else None)"

text \<open>
  \<open>Assert (EXPR)\<close>: with checking it continues (the result is empty) or calls the handler;
  without, \<open>EXPR\<close> is not evaluated.
\<close>

definition Assert :: "build \<Rightarrow> Location \<Rightarrow> bool \<Rightarrow> fatal_act list" where
  "Assert cfg loc expr = (if NMS_CHECKING cfg then (if expr then [] else AssertFailed cfg loc) else [])"

definition BuildNote :: "build \<Rightarrow> bytes" where
  "BuildNote cfg =
     ''Version '' @ (PACKAGE_NAME cfg @ '' '' @ PACKAGE_VERSION cfg) @ ''.'' @ [NL]
     @ ''Report bugs to '' @ (if BUGURL cfg \<noteq> [] then BUGURL cfg else ''you'') @ ''.'' @ [NL]
     @ (if PACKAGE_URL cfg \<noteq> [] then ''See '' @ PACKAGE_URL cfg @ '' for more information.'' @ [NL] else [])
     @ (if REVISION cfg \<noteq> [] then ''Source '' @ REVISION cfg @ ''.'' @ [NL] else [])
     @ ''Build is '' @ ((if \<not> NMS_CHECKING cfg then ''un'' else []) @ ''checked'') @ '' & ''
     @ ((if \<not> OPTIMIZE cfg then ''un'' else []) @ ''optimized'') @ ''.'' @ [NL]"

section \<open>Facts\<close>

lemma strncmp_eq_take: "NUL \<notin> set src \<Longrightarrow> NUL \<notin> set fname
   \<Longrightarrow> strncmp_eq src fname (length src) \<longleftrightarrow> take (length src) fname = src"
proof (induction src arbitrary: fname)
  case (Cons c src)
  show ?case
  proof (cases fname)
    case (Cons d ds)
    then show ?thesis using Cons.IH [of ds] Cons.prems by (auto simp: c_hd_def)
  qed (use Cons.prems in \<open>auto simp: c_hd_def\<close>)
qed simp

lemma relative_file_under:
  assumes "NUL \<notin> set (src @ CHR ''/'' # rel)" and "src \<noteq> []"
  shows "relative_file src (src @ CHR ''/'' # rel) = rel"
  using assms strncmp_eq_take [of src "src @ CHR ''/'' # rel"] by (simp add: relative_file_def c_hd_def)

lemma relative_file_other:
  assumes "NUL \<notin> set src" and "NUL \<notin> set fname" and "\<nexists>rel. fname = src @ CHR ''/'' # rel"
  shows "relative_file src fname = fname"
proof -
  have "\<not> (take (length src) fname = src \<and> c_hd (drop (length src) fname) = CHR ''/'')"
  proof
    assume *: "take (length src) fname = src \<and> c_hd (drop (length src) fname) = CHR ''/''"
    then obtain rel where "drop (length src) fname = CHR ''/'' # rel"
      by (auto simp: c_hd_def split: list.splits)
    then have "fname = src @ CHR ''/'' # rel" using * append_take_drop_id [of "length src" fname] by simp
    with assms(3) show False by blast
  qed
  then show ?thesis using strncmp_eq_take [OF assms(1,2)] by (auto simp: relative_file_def Let_def)
qed

text \<open>The bytes on \<open>stderr\<close>, and that the process is always told to end.\<close>

fun stderr_of :: "fatal_act list \<Rightarrow> bytes" where
  "stderr_of [] = []"
| "stderr_of (Stderr s # as) = s @ stderr_of as"
| "stderr_of (_ # as) = stderr_of as"

lemma HCF_ends: "\<exists>out. HCF cfg msg loc = out @ [Raise SIGABRT, Exit 2] \<and> (\<forall>a \<in> set out. \<exists>s. a = Stderr s)"
proof -
  have "HCF cfg msg loc = butlast (butlast (HCF cfg msg loc)) @ [Raise SIGABRT, Exit 2]"
    by (simp add: HCF_def Let_def butlast_append split: option.splits)
  then show ?thesis
    by (intro exI [of _ "butlast (butlast (HCF cfg msg loc))"])
      (auto simp: HCF_def Let_def butlast_append split: option.splits)
qed

text \<open>C39: a failed \<open>Assert\<close> prints its file and line, the file relative to the source directory
  exactly when it lies under it, as a name and not as a mere prefix, and then ends the
  process; an \<open>Assert\<close> that holds does nothing.\<close>

theorem AssertFailed_message:
  assumes "NMS_CHECKING cfg" and "File loc = Some fname" and "NUL \<notin> set (SRCDIR cfg)" and "NUL \<notin> set fname"
  shows "(\<exists>out. Assert cfg loc False = out @ [Raise SIGABRT, Exit 2])
    \<and> stderr_of (Assert cfg loc False) = ''CODYlib: assertion failed at ''
      @ (if SRCDIR cfg \<noteq> [] \<and> (\<exists>rel. fname = SRCDIR cfg @ CHR ''/'' # rel) then drop (length (SRCDIR cfg) + 1) fname else fname)
      @ '':'' @ to_string (unat (Line loc)) @ [NL]
    \<and> Assert cfg loc True = []"
proof -
  have file_name: "relative_file (SRCDIR cfg) fname
    = (if SRCDIR cfg \<noteq> [] \<and> (\<exists>rel. fname = SRCDIR cfg @ CHR ''/'' # rel) then drop (length (SRCDIR cfg) + 1) fname else fname)"
    using assms(3,4) relative_file_under [of "SRCDIR cfg"] relative_file_other [of "SRCDIR cfg" fname]
    by (auto simp: relative_file_def)
  obtain out where "Assert cfg loc False = out @ [Raise SIGABRT, Exit 2]"
    using assms(1) HCF_ends [of cfg _ loc] unfolding Assert_def AssertFailed_def by force
  then show ?thesis
    using assms(1,2) file_name by (simp add: Assert_def AssertFailed_def HCF_def)
qed

definition example_build :: build where
  "example_build = \<lparr>NMS_CHECKING = True, OPTIMIZE = True, SRCDIR = ''/src/cody'', PACKAGE_NAME = ''codylib'',
     PACKAGE_VERSION = ''0.0'', PACKAGE_URL = [], BUGURL = [], REVISION = []\<rparr>"

theorem AssertFailed_message_witness:
  "stderr_of (Assert example_build (Location_make (Some ''/src/cody/buffer.cc'') 7) False)
     = ''CODYlib: assertion failed at buffer.cc:7'' @ [NL]
   \<and> stderr_of (Assert example_build (Location_make (Some ''/src/codyx/buffer.cc'') 7) False)
     = ''CODYlib: assertion failed at /src/codyx/buffer.cc:7'' @ [NL]"
  using AssertFailed_message [of example_build "Location_make (Some ''/src/cody/buffer.cc'') 7"]
    AssertFailed_message [of example_build "Location_make (Some ''/src/codyx/buffer.cc'') 7"]
  by (simp add: example_build_def to_string.simps char_of_def bit_0)

end
