(* ===== verification/TestPrograms.thy ===== *)
theory TestPrograms
  imports ClientProperties
begin

text \<open>
  The test programs of the repository (\<open>tests/01-serialize\<close>, \<open>tests/02-comms\<close>) as compositions of
  the model's operations, and the runs their comments record as theorems: the model gives the
  output the tests expect, with one exception, the integer of a handshake's packet.
  \<open>pivot-1.cc\<close>, whose resolvers are objects of two classes, is left out.
\<close>

section \<open>Messages\<close>

text \<open>\<open>encoder.cc\<close>: two blocks, each written by a retry loop that is left on any other error.\<close>

definition encoder_main :: "write_ret list \<Rightarrow> bytes res" where
  "encoder_main writes =
     (let w = BeginLine empty_buffer;
          w = AppendWord ''bob'' False None w;
          w = AppendWord ''frob dob'' True None w;
          w = Append ([NL, char_of (0xc2 :: nat), char_of (0xaf :: nat)] @ [BSLASH]) True None w;
          w = PrepareToWrite (EndLine w)
      in bind_res (write_all writes w) (\<lambda>(e, first, w, writes).
      let w = EndLine (Append ''2'' True None (BeginLine w));
          w = EndLine (Append ''3'' True None (BeginLine w));
          w = PrepareToWrite w
      in bind_res (write_all writes w) (\<lambda>(e, second, w, writes). Inr (first @ second))))"

text \<open>\<open>decoder.cc\<close>: the words of each line, numbered, and the errors.\<close>

function decoder_lines :: "(int \<Rightarrow> bytes) \<Rightarrow> 32 word \<Rightarrow> MessageBuffer \<Rightarrow> bytes res" where
  "decoder_lines strerr line b =
     (if IsAtEnd b then Inr []
      else bind_res (Lex b) (\<lambda>(e, words, b).
        bind_res (decoder_lines strerr (line + 1) b) (\<lambda>out.
          Inr ((if e \<noteq> 0 then ''error:'' @ strerr e @ [NL] else [])
             @ concat (map (\<lambda>(ix, word). ''line:'' @ to_string (unat line) @ '' word:'' @ to_string ix
                 @ '' '' @ [APOS] @ word @ [APOS, NL]) (enumerate 0 words))
             @ out))))"
  by pat_completeness auto
termination
proof (relation "measure (\<lambda>(strerr, line, b). length (buffer b) - lastBol b)")
  fix strerr line b x e y ws b'
  assume "\<not> IsAtEnd b" "Lex b = Inr x" "(e, y) = x" "(ws, b') = y"
  then have "Lex b = Inr (e, ws, b')" by simp
  from Lex_forward [OF this \<open>\<not> IsAtEnd b\<close>]
  show "((strerr, line + 1, b'), strerr, line, b) \<in> measure (\<lambda>(strerr, line, b). length (buffer b) - lastBol b)"
    using diff_less_mono2 [of "lastBol b" "lastBol b'" "length (buffer b)"] by simp
qed simp

declare decoder_lines.simps [simp del]

definition decoder_main :: "(int \<Rightarrow> bytes) \<Rightarrow> read_ret list \<Rightarrow> bytes res" where
  "decoder_main strerr reads =
     bind_res (read_all reads (PrepareToRead empty_buffer)) (\<lambda>(e, b, reads). decoder_lines strerr 0 b)"

text \<open>The output \<open>encoder.cc\<close> records.\<close>

lemma encoder_recorded:
  "encoder_main [Wrote 23, Wrote 6]
   = Inr (''bob '' @ [APOS] @ ''frob dob'' @ [APOS, APOS, BSLASH] @ ''n''
       @ [char_of (0xc2 :: nat), char_of (0xaf :: nat)] @ [BSLASH, BSLASH, APOS, NL] @ ''2 ;'' @ [NL] @ ''3'' @ [NL])"
  by code_simp

text \<open>The four runs \<open>decoder.cc\<close> records; only the first word of \<open>strerror (ENOENT)\<close> is checked.\<close>

definition test_strerror :: "int \<Rightarrow> bytes" where
  "test_strerror e = (if e = ENOENT then ''No such file or directory'' else if e = EINVAL then ''Invalid argument'' else [])"

lemma decoder_recorded_1:
  "decoder_main test_strerror [Got (''bob '' @ [APOS] @ ''frob dob'' @ [APOS, APOS, BSLASH] @ ''nF'' @ [BSLASH] @ ''_b''
       @ [BSLASH] @ ''20'' @ [BSLASH] @ ''61'' @ [BSLASH, BSLASH, APOS, NL])]
   = Inr (''line:0 word:0 '' @ [APOS] @ ''bob'' @ [APOS, NL]
       @ ''line:0 word:1 '' @ [APOS] @ ''frob dob'' @ [NL] @ ''F b a'' @ [BSLASH, APOS, NL])"
  by code_simp

lemma decoder_recorded_2:
  "decoder_main test_strerror [Got (''line-1 word:1 ;'' @ [NL]), Got ([APOS] @ ''line 2'' @ [APOS] @ '' ;'' @ [NL]), Got [NL]]
   = Inr (''line:0 word:0 '' @ [APOS] @ ''line-1'' @ [APOS, NL] @ ''line:0 word:1 '' @ [APOS] @ ''word:1'' @ [APOS, NL]
       @ ''line:1 word:0 '' @ [APOS] @ ''line 2'' @ [APOS, NL] @ ''error:No such file or directory'' @ [NL])"
  by code_simp

lemma decoder_recorded_3:
  "decoder_main test_strerror [Got [APOS, NL]]
   = Inr (''error:Invalid argument'' @ [NL] @ ''line:0 word:0 '' @ [APOS, APOS, APOS, NL])"
  by code_simp

lemma decoder_recorded_4:
  "decoder_main test_strerror [Got ('' ;'' @ [NL]), Got ([APOS, BSLASH] @ ''g'' @ [APOS, NL])]
   = Inr (''error:No such file or directory'' @ [NL] @ ''error:Invalid argument'' @ [NL]
       @ ''line:1 word:0 '' @ [APOS, APOS, BSLASH] @ ''g'' @ [APOS, APOS, NL])"
  by code_simp

section \<open>A server\<close>

text \<open>
  \<open>server-1.cc\<close>, for any resolver: one block is read, processed whatever \<open>Read\<close> said, and
  answered. The result is what is written, and the server with its resolver.
\<close>

definition server_main ::
  "(int \<Rightarrow> bytes) \<Rightarrow> 'r Resolver_vt \<Rightarrow> 'r \<Rightarrow> read_ret list \<Rightarrow> write_ret list \<Rightarrow> (bytes \<times> 'r Server) res" where
  "server_main strerr vt r reads writes =
     (let s = Server_fds r 0 1
      in bind_res (read_all reads (sv_read s)) (\<lambda>(e, b, reads).
         bind_res (ProcessRequests strerr vt (s\<lparr>sv_read := b\<rparr>)) (\<lambda>s.
         let s = Server_PrepareToWrite s
         in bind_res (write_all writes (sv_write s)) (\<lambda>(e, sent, w, writes). Inr (sent, s\<lparr>sv_write := w\<rparr>)))))"

lemma server_main_answers:
  assumes "resolver_contract vt conn req err" and "read_all reads empty_buffer = Inr (e, \<lparr>buffer = txt, lastBol = 0\<rparr>, rest)"
    and "serve_all (serve conn req err strerr) (r, False) (nl_lines txt) = (wss, r', c')"
    and "takes_all (length (enc_block wss) + 1) writes"
    and "txt \<noteq> []" and "last txt = NL" and "hd (nl_lines txt) \<notin> {[], [CONTINUE]}"
  shows "\<exists>s. server_main strerr vt r reads writes = Inr (enc_block wss @ [NL], s) \<and> resolver s = r' \<and> is_connected s = c'"
proof -
  let ?s = "(Server_fds r 0 1)\<lparr>sv_read := \<lparr>buffer = txt, lastBol = 0\<rparr>\<rparr>"
  have new: "sv_read (Server_fds r 0 1) = empty_buffer" "resolver ?s = r" "is_connected ?s = False" "buffer (sv_write ?s) = []"
    by (simp_all add: Server_fds_def Server_new_def Server_PrepareToRead_def PrepareToRead_def empty_buffer_def)
  have at: "readable (sv_read ?s)" "\<not> IsAtEnd (sv_read ?s)" using assms(5,6) by (simp_all add: readable_def IsAtEnd_def)
  have lines: "lines_of (sv_read ?s) = nl_lines txt" by (simp add: lines_of_def)
  then have "next_line (sv_read ?s) = hd (nl_lines txt)" using lines_of_line [OF at] by (metis list.sel(1))
  then obtain w where w: "ProcessRequests strerr vt ?s = Inr (?s\<lparr>direction := PROCESSING, sv_read := at_end (sv_read ?s),
      sv_write := w, resolver := r', is_connected := c'\<rparr>)" "holds_block wss w"
    using server_refines [OF assms(1) at(1), of "[]" strerr wss r' c'] assms(3,7) lines new(2-4)
    by (auto simp: holds_block_def)
  have "PrepareToWrite w = \<lparr>buffer = enc_block wss @ [NL], lastBol = 0\<rparr>"
    using w(2) by (simp add: PrepareToWrite_def holds_block_def)
  moreover obtain writes' where "write_all writes \<lparr>buffer = enc_block wss @ [NL], lastBol = 0\<rparr>
      = Inr (0, enc_block wss @ [NL], empty_buffer, writes')"
    using write_all_takes_all [of "\<lparr>buffer = enc_block wss @ [NL], lastBol = 0\<rparr>" writes] assms(4) by auto
  ultimately show ?thesis
    using w(1) assms(2) new(1) by (auto simp: server_main_def Let_def Server_PrepareToWrite_def)
qed

text \<open>The runs \<open>server-1.cc\<close> records, on a system where no CMI exists.\<close>

definition no_files :: os where
  "no_files = \<lparr>os_open = 3, os_fstatat = (\<lambda>_ _. None), open_fds = []\<rparr>"

definition test_requests :: bytes where
  "test_requests = ''HELLO 1 TEST IDENT ;'' @ [NL] @ ''MODULE-REPO ;'' @ [NL] @ ''MODULE-EXPORT bar ;'' @ [NL]
     @ ''MODULE-IMPORT foo ;'' @ [NL] @ ''NOT A COMMAND ;'' @ [NL] @ ''INCLUDE-TRANSLATE baz.frob ;'' @ [NL]
     @ ''INCLUDE-TRANSLATE ./quux ;'' @ [NL] @ ''MODULE-COMPILED bar ;'' @ [NL] @ ''MODULE-IMPORT '' @ [APOS, APOS, NL]"

definition test_replies :: bytes where
  "test_replies = ''HELLO 1 default ;'' @ [NL] @ ''PATHNAME cmi.cache ;'' @ [NL] @ ''PATHNAME bar.cmi ;'' @ [NL]
     @ ''PATHNAME foo.cmi ;'' @ [NL] @ ''ERROR '' @ [APOS] @ ''unrecognized '' @ [BSLASH, APOS] @ ''NOT A COMMAND''
     @ [BSLASH, APOS, APOS] @ '' ;'' @ [NL] @ ''BOOL FALSE ;'' @ [NL] @ ''BOOL FALSE ;'' @ [NL] @ ''OK ;'' @ [NL]
     @ ''ERROR '' @ [APOS] @ ''malformed '' @ [BSLASH, APOS] @ ''MODULE-IMPORT '' @ [BSLASH, APOS, BSLASH, APOS, BSLASH, APOS, APOS, NL]"

lemma test_lines: "nl_lines test_requests = [''HELLO 1 TEST IDENT ;'', ''MODULE-REPO ;'', ''MODULE-EXPORT bar ;'', ''MODULE-IMPORT foo ;'',
  ''NOT A COMMAND ;'', ''INCLUDE-TRANSLATE baz.frob ;'', ''INCLUDE-TRANSLATE ./quux ;'', ''MODULE-COMPILED bar ;'', ''MODULE-IMPORT '' @ [APOS, APOS]]"
  by code_simp

lemma test_lexed:
  "lex_line ''HELLO 1 TEST IDENT ;'' = Some (call_words (CallConnect ''TEST'' ''IDENT''))"
  "lex_line ''MODULE-REPO ;'' = Some [''MODULE-REPO'']"
  "lex_line ''MODULE-EXPORT bar ;'' = Some [''MODULE-EXPORT'', ''bar'']"
  "lex_line ''MODULE-IMPORT foo ;'' = Some [''MODULE-IMPORT'', ''foo'']"
  "lex_line ''NOT A COMMAND ;'' = Some [''NOT'', ''A'', ''COMMAND'']"
  "lex_line ''INCLUDE-TRANSLATE baz.frob ;'' = Some [''INCLUDE-TRANSLATE'', ''baz.frob'']"
  "lex_line ''INCLUDE-TRANSLATE ./quux ;'' = Some [''INCLUDE-TRANSLATE'', ''./quux'']"
  "lex_line ''MODULE-COMPILED bar ;'' = Some [''MODULE-COMPILED'', ''bar'']"
  "lex_line (''MODULE-IMPORT '' @ [APOS, APOS]) = Some [''MODULE-IMPORT'', []]"
  by code_simp+

lemma test_decoded:
  "decode (call_words (CallConnect ''TEST'' ''IDENT'')) = Hello 1 ''TEST'' ''IDENT''"
  "decode [''MODULE-REPO''] = Request Repo"
  "decode [''MODULE-EXPORT'', ''bar''] = Request (Export 0 ''bar'')"
  "decode [''MODULE-IMPORT'', ''foo''] = Request (Import 0 ''foo'')"
  "decode [''NOT'', ''A'', ''COMMAND''] = Unrecognized"
  "decode [''INCLUDE-TRANSLATE'', ''baz.frob''] = Request (Translate 0 ''baz.frob'')"
  "decode [''INCLUDE-TRANSLATE'', ''./quux''] = Request (Translate 0 ''./quux'')"
  "decode [''MODULE-COMPILED'', ''bar''] = Request (Compiled 0 ''bar'')"
  "decode [''MODULE-IMPORT'', []] = BadRequest"
  subgoal using decode_call_words(6) [of "''x''" 0] by simp
  by (simp_all add: decode_def decode_named_def)

lemma test_cmi: "cmi_of ''bar'' = ''bar.cmi''" "cmi_of ''foo'' = ''foo.cmi''"
  by code_simp+

definition test_words :: "bytes list list" where
  "test_words = [[''HELLO'', to_string 1, ''default''], [''PATHNAME'', ''cmi.cache''], [''PATHNAME'', ''bar.cmi''],
     [''PATHNAME'', ''foo.cmi''], [''ERROR'', ''unrecognized '' @ [APOS] @ ''NOT A COMMAND'' @ [APOS]], [''BOOL'', ''FALSE''],
     [''BOOL'', ''FALSE''], [''OK''], [''ERROR'', ''malformed '' @ [APOS] @ ''MODULE-IMPORT '' @ [APOS, APOS, APOS]]]"

lemma test_encoded: "enc_block test_words @ [NL] = test_replies"
  by code_simp

lemma test_absent: "\<not> cmi_present no_files cmi"
  by (simp add: cmi_present_def no_files_def)

lemma test_complaints:
  "complaint ''unrecognized'' ''NOT A COMMAND ;'' = ''unrecognized '' @ [APOS] @ ''NOT A COMMAND'' @ [APOS]"
  "complaint ''malformed'' (''MODULE-IMPORT '' @ [APOS, APOS]) = ''malformed '' @ [APOS] @ ''MODULE-IMPORT '' @ [APOS, APOS, APOS]"
  by code_simp+

lemma test_steps:
  "default_serve strerr (no_files, False) ''HELLO 1 TEST IDENT ;'' = ([''HELLO'', to_string 1, ''default''], no_files, True)"
  "default_serve strerr (no_files, True) ''MODULE-REPO ;'' = ([''PATHNAME'', ''cmi.cache''], no_files, True)"
  "default_serve strerr (no_files, True) ''MODULE-EXPORT bar ;'' = ([''PATHNAME'', ''bar.cmi''], no_files, True)"
  "default_serve strerr (no_files, True) ''MODULE-IMPORT foo ;'' = ([''PATHNAME'', ''foo.cmi''], no_files, True)"
  "default_serve strerr (no_files, True) ''NOT A COMMAND ;''
     = ([''ERROR'', ''unrecognized '' @ [APOS] @ ''NOT A COMMAND'' @ [APOS]], no_files, True)"
  "default_serve strerr (no_files, True) ''INCLUDE-TRANSLATE baz.frob ;'' = ([''BOOL'', ''FALSE''], no_files, True)"
  "default_serve strerr (no_files, True) ''INCLUDE-TRANSLATE ./quux ;'' = ([''BOOL'', ''FALSE''], no_files, True)"
  "default_serve strerr (no_files, True) ''MODULE-COMPILED bar ;'' = ([''OK''], no_files, True)"
  "default_serve strerr (no_files, True) (''MODULE-IMPORT '' @ [APOS, APOS])
     = ([''ERROR'', ''malformed '' @ [APOS] @ ''MODULE-IMPORT '' @ [APOS, APOS, APOS]], no_files, True)"
  unfolding serve.simps test_lexed option.case test_decoded
  by (simp_all only: Let_def decoded.case if_True if_False simp_thms default_conn_def default_req_def default_err_def
      outcome.case prod.case request.case test_absent test_cmi test_complaints REPO_DIR_def) simp

lemma test_served: "serve_all (default_serve strerr) (no_files, False) (nl_lines test_requests) = (test_words, no_files, True)"
  unfolding test_lines test_words_def by (simp only: serve_all.simps test_steps Let_def prod.case)

lemma server_recorded:
  "\<exists>s. server_main strerr default_resolver no_files [Got test_requests] [Wrote (length test_replies)] = Inr (test_replies, s)
     \<and> resolver s = no_files \<and> is_connected s"
proof -
  have block: "split_block False (buffer empty_buffer @ test_requests) = Some (buffer empty_buffer @ test_requests, [])"
    "test_requests \<noteq> []" "last test_requests = NL" by code_simp+
  obtain rest where read: "read_all [Got test_requests] empty_buffer = Inr (0, \<lparr>buffer = test_requests, lastBol = 0\<rparr>, rest)"
    using read_all_delivers [OF block(1), of "[Got test_requests]"] block(2) by (auto simp: empty_buffer_def simp del: read_all.simps)
  have out: "takes_all (length (enc_block test_words) + 1) [Wrote (length test_replies)]"
    unfolding test_encoded [symmetric] by simp
  have first: "hd (nl_lines test_requests) \<notin> {[], [CONTINUE]}" by (simp add: test_lines)
  show ?thesis
    using server_main_answers [OF dflt.resolver_contract_axioms read test_served out block(2,3) first] by (simp add: test_encoded)
qed

text \<open>
  The second run: what follows the block of the handshake in the same read is cut off, and
  \<open>Read\<close> reports EINVAL; the program answers the handshake all the same.
\<close>

lemma server_recorded_2:
  "\<exists>s. server_main strerr default_resolver no_files [Got (''HELLO 1 TEST IDENT'' @ [NL] @ ''MODULE-REPO'' @ [NL])] [Wrote 16]
       = Inr (''HELLO 1 default'' @ [NL], s) \<and> resolver s = no_files \<and> is_connected s"
proof -
  let ?txt = "''HELLO 1 TEST IDENT'' @ [NL]" and ?words = "[[''HELLO'', to_string 1, ''default'']]"
  have read: "read_all [Got (''HELLO 1 TEST IDENT'' @ [NL] @ ''MODULE-REPO'' @ [NL])] empty_buffer
      = Inr (EINVAL, \<lparr>buffer = ?txt, lastBol = 0\<rparr>, [])" by code_simp
  have lines: "nl_lines ?txt = [''HELLO 1 TEST IDENT'']"
    "lex_line ''HELLO 1 TEST IDENT'' = Some (call_words (CallConnect ''TEST'' ''IDENT''))" by code_simp+
  have "default_serve strerr (no_files, False) ''HELLO 1 TEST IDENT'' = ([''HELLO'', to_string 1, ''default''], no_files, True)"
    unfolding serve.simps lines option.case test_decoded
    by (simp only: Let_def decoded.case if_False default_conn_def outcome.case) simp
  then have served: "serve_all (default_serve strerr) (no_files, False) (nl_lines ?txt) = (?words, no_files, True)"
    unfolding lines by (simp only: serve_all.simps Let_def prod.case)
  have encoded: "enc_block ?words @ [NL] = ''HELLO 1 default'' @ [NL]" by code_simp
  have "takes_all (length (enc_block ?words) + 1) [Wrote 16]" by code_simp
  from server_main_answers [OF dflt.resolver_contract_axioms read served this] lines(1)
  show ?thesis unfolding encoded by simp
qed

section \<open>Clients\<close>

text \<open>What \<open>client-1.cc\<close> prints of a packet, by its category; \<open>connect.cc\<close> asks for the integer outright.\<close>

definition show_packet :: "Packet \<Rightarrow> bytes res" where
  "show_packet p = bind_res
     (case GetCategory p of
        INTEGER \<Rightarrow> bind_res (GetInteger p) (\<lambda>i. Inr (''Integer:'' @ to_string (unat i) @ [NL]))
      | STRING \<Rightarrow> bind_res (GetString p) (\<lambda>str. Inr (''String:'' @ str @ [NL]))
      | VECTOR \<Rightarrow> bind_res (GetVector p) (\<lambda>v.
          Inr (concat (map (\<lambda>(ix, str). ''Vector['' @ to_string ix @ '']:'' @ str @ [NL]) (enumerate 0 v)))))
     (\<lambda>out. Inr (''Code:'' @ to_string (unat (GetCode p)) @ [NL] @ out))"

fun show_packets :: "Packet list \<Rightarrow> bytes res" where
  "show_packets [] = Inr []"
| "show_packets (p # ps) = bind_res (show_packet p) (\<lambda>out. bind_res (show_packets ps) (\<lambda>outs. Inr (out @ outs)))"

definition connect_main :: "(int \<Rightarrow> bytes) \<Rightarrow> write_ret list \<Rightarrow> read_ret list \<Rightarrow> bytes res" where
  "connect_main strerr writes reads =
     bind_res (Connect strerr default_resolver ''TEST'' ''IDENT'' None None (Client_fds 0 1 writes reads)) (\<lambda>(token, c).
     bind_res (GetInteger token) (\<lambda>i.
       Inr (''Code:'' @ to_string (unat (GetCode token)) @ [NL] @ ''Version:'' @ to_string (unat i) @ [NL])))"

text \<open>\<open>client-1.cc\<close>: eight requests in a cork, each checked to be queued, and their packets.\<close>

definition client_calls :: "call list" where
  "client_calls = [CallConnect ''TEST'' ''IDENT'', CallRepo, CallExport ''bar'' 0, CallImport ''foo'' 0,
     CallTranslate ''baz.frob'' 0, CallTranslate ''./corge'' 0, CallTranslate ''./quux'' 0, CallCompiled ''bar'' 0]"

definition client_main :: "(int \<Rightarrow> bytes) \<Rightarrow> write_ret list \<Rightarrow> read_ret list \<Rightarrow> (bytes \<times> bytes) res" where
  "client_main strerr writes reads =
     bind_res (make_calls strerr default_resolver client_calls (Cork (Client_fds 0 1 writes reads))) (\<lambda>(queue, c).
     let warnings = concat (map (\<lambda>p. if GetCode p \<noteq> PC_CORKED then ''Not corked!'' @ [NL] else []) queue)
     in bind_res (Uncork strerr default_resolver c) (\<lambda>(result, c).
        bind_res (show_packets result) (\<lambda>out. Inr (kernel_sent c, warnings @ out))))"

text \<open>
  The recorded run of \<open>client-1.cc\<close>: what goes out is as expected, and so are the packets but
  for the first: the program prints \<open>Integer:0\<close>, the flags, where the test expects \<open>Integer:1\<close>.
\<close>

definition test_responses :: bytes where
  "test_responses = ''HELLO 1 TESTING ;'' @ [NL] @ ''PATHNAME REPO ;'' @ [NL] @ ''PATHNAME biz/bar ;'' @ [NL]
     @ ''PATHNAME blob ;'' @ [NL] @ ''BOOL FALSE ;'' @ [NL] @ '' BOOL TRUE ;'' @ [NL] @ '' PATHNAME foo ;'' @ [NL] @ ''OK'' @ [NL]"

definition client_sent :: bytes where
  "client_sent = ''HELLO 1 TEST IDENT ;'' @ [NL] @ ''MODULE-REPO ;'' @ [NL] @ ''MODULE-EXPORT bar ;'' @ [NL]
     @ ''MODULE-IMPORT foo ;'' @ [NL] @ ''INCLUDE-TRANSLATE baz.frob ;'' @ [NL] @ ''INCLUDE-TRANSLATE ./corge ;'' @ [NL]
     @ ''INCLUDE-TRANSLATE ./quux ;'' @ [NL] @ ''MODULE-COMPILED bar'' @ [NL]"

definition test_packets :: "Packet list" where
  "test_packets = [SetRequest 0 (Packet_int PC_CONNECT 0), SetRequest 1 (Packet_str PC_PATHNAME ''REPO''),
     SetRequest 2 (Packet_str PC_PATHNAME ''biz/bar''), SetRequest 3 (Packet_str PC_PATHNAME ''blob''),
     SetRequest 5 (Packet_int PC_BOOL 0), SetRequest 5 (Packet_int PC_BOOL 1), SetRequest 5 (Packet_str PC_PATHNAME ''foo''),
     SetRequest 4 (Packet_int PC_OK 0)]"

lemma test_response_lines:
  "nl_lines test_responses = [''HELLO 1 TESTING ;'', ''PATHNAME REPO ;'', ''PATHNAME biz/bar ;'', ''PATHNAME blob ;'',
     ''BOOL FALSE ;'', '' BOOL TRUE ;'', '' PATHNAME foo ;'', ''OK'']"
  by code_simp

lemma reply_hello_test:
  "reply_packet RC_CONNECT False (enc_line [''HELLO'', to_string 1, ''TESTING'']) = SetRequest 0 (Packet_int PC_CONNECT 0)"
  "reply_packet RC_CONNECT False ''HELLO 1 TESTING ;'' = SetRequest 0 (Packet_int PC_CONNECT 0)"
proof -
  have "strtoul (c_str (to_string 1)) = (1, [])"
    using strtoul_digits [OF digits_to_string, of 1] by (simp add: c_str_digits digits_to_string)
  moreover have "lex_line ''HELLO 1 TESTING ;'' = Some [''HELLO'', to_string 1, ''TESTING'']" by code_simp
  ultimately show "reply_packet RC_CONNECT False (enc_line [''HELLO'', to_string 1, ''TESTING'']) = SetRequest 0 (Packet_int PC_CONNECT 0)"
    "reply_packet RC_CONNECT False ''HELLO 1 TESTING ;'' = SetRequest 0 (Packet_int PC_CONNECT 0)"
    by (simp_all add: reply_packet_def fill_error_def responseTable_def Client_ConnectResponse_def rc_word_def
        ascii_def uchar_def)
qed

lemma test_decoded_packets: "peer_packets (map call_code client_calls) (nl_lines test_responses) = test_packets"
proof -
  have "map2 (\<lambda>rc l. reply_packet rc False l) [RC_MODULE_REPO, RC_MODULE_EXPORT, RC_MODULE_IMPORT,
    RC_INCLUDE_TRANSLATE, RC_INCLUDE_TRANSLATE, RC_INCLUDE_TRANSLATE, RC_MODULE_COMPILED] (tl (nl_lines test_responses)) = tl test_packets"
    by code_simp
  then show ?thesis
    by (simp add: client_calls_def test_response_lines reply_hello_test) (simp add: test_packets_def)
qed

lemma client_recorded:
  "client_main strerr [Wrote (length client_sent)] [Got test_responses]
   = Inr (client_sent, ''Code:1'' @ [NL] @ ''Integer:0'' @ [NL] @ ''Code:5'' @ [NL] @ ''String:REPO'' @ [NL]
       @ ''Code:5'' @ [NL] @ ''String:biz/bar'' @ [NL] @ ''Code:5'' @ [NL] @ ''String:blob'' @ [NL]
       @ ''Code:4'' @ [NL] @ ''Integer:0'' @ [NL] @ ''Code:4'' @ [NL] @ ''Integer:1'' @ [NL]
       @ ''Code:5'' @ [NL] @ ''String:foo'' @ [NL] @ ''Code:3'' @ [NL] @ ''Integer:0'' @ [NL])"
    (is "_ = Inr (_, ?out)")
proof -
  let ?c = "Client_fds 0 1 [Wrote (length client_sent)] [Got test_responses] :: os Client"
  have "queued [] (Cork ?c)" by (intro Cork_queued) (simp_all add: Client_fds_def empty_buffer_def)
  then obtain d where d: "make_calls strerr default_resolver client_calls (Cork ?c)
      = Inr (replicate (length client_calls) (Packet_int PC_CORKED 0), d)"
    "queued (call_reqs client_calls) d" "channel d = Fds 0 1"
    "kernel_writes d = [Wrote (length client_sent)]" "kernel_reads d = [Got test_responses]" "kernel_sent d = []"
    using make_calls_corked [of "[]" "Cork ?c" client_calls strerr default_resolver] by (auto simp: Cork_def Client_fds_def client_calls_def)
  have reqs: "map snd (call_reqs client_calls) = map call_code client_calls" "call_reqs client_calls \<noteq> []"
    "RC_HWM \<notin> snd ` set (call_reqs client_calls)" "map fst (call_reqs client_calls) = call_lines client_calls"
    by (auto simp: call_reqs_def client_calls_def)
  have "text_block (call_lines client_calls) @ [NL] = client_sent" by code_simp
  then have sent: "buffer (cl_write d) @ [NL] = client_sent"
    using d(2) reqs(4) by (simp add: queued_def holds_lines_def)
  have "length (buffer (cl_write d)) + 1 = length client_sent" by (simp flip: sent)
  then have takes: "takes_all (length (buffer (cl_write d)) + 1) (kernel_writes d)" by (simp add: d(4))
  have blk: "split_block False test_responses = Some (test_responses, [])" "test_responses \<noteq> []" by code_simp+
  have "delivers test_responses (kernel_reads d)" using blk(2) by (simp add: d(5))
  from Uncork_peer [OF d(3,2) reqs(2,3) takes blk(1) this refl] obtain d' where
    d': "Uncork strerr default_resolver d = Inr (test_packets, d')" "kernel_sent d' = client_sent"
    by (auto simp: reqs(1) test_decoded_packets d(6) sent)
  have "show_packets test_packets = Inr ?out" by code_simp
  then show ?thesis
    using d(1) d' by (simp add: client_main_def Let_def)
qed

text \<open>The run of \<open>connect.cc\<close>, which expects \<open>Version:1\<close>.\<close>

lemma connect_recorded:
  "connect_main strerr [Wrote 19] [Got (''HELLO 1 TESTING'' @ [NL])] = Inr (''Code:1'' @ [NL] @ ''Version:0'' @ [NL])"
proof -
  let ?c = "Client_fds 0 1 [Wrote 19] [Got (''HELLO 1 TESTING'' @ [NL])] :: os Client"
  let ?words = "[''HELLO'', to_string 1, ''TEST'', ''IDENT'']" and ?reply = "[''HELLO'', to_string 1, ''TESTING'']"
  let ?w = "put_call (CallConnect ''TEST'' ''IDENT'') (cl_write ?c)"
  have "buffer (cl_write ?c) = []" by (simp add: Client_fds_def empty_buffer_def)
  from put_call_first [OF this, of "CallConnect ''TEST'' ''IDENT''"] have held: "buffer ?w = enc_line ?words"
    by (simp del: put_call.simps)
  have "c_extent ''TEST'' None = ''TEST''" "c_extent ''IDENT'' None = ''IDENT''" by code_simp+
  moreover have "c_extent str (Some (length str)) = str" for str by (simp add: c_extent_def)
  ultimately have call: "Connect strerr default_resolver ''TEST'' ''IDENT'' None None ?c
      = MaybeRequest strerr default_resolver (?c\<lparr>cl_write := ?w\<rparr>) (rc_word RC_CONNECT)"
    by (simp only: Connect_def put_call.simps Let_def AppendWord_as_string)
  have lines: "enc_line ?words = ''HELLO 1 TEST IDENT''" "enc_line ?reply = ''HELLO 1 TESTING''" by code_simp+
  have "takes_all (length (enc_line ?words) + 1) (kernel_writes (?c\<lparr>cl_write := ?w\<rparr>))"
    "delivers (enc_line ?reply @ [NL]) (kernel_reads (?c\<lparr>cl_write := ?w\<rparr>))"
    unfolding lines by (simp_all add: Client_fds_def)
  then obtain d where "MaybeRequest strerr default_resolver (?c\<lparr>cl_write := ?w\<rparr>) (rc_word RC_CONNECT)
      = Inr (reply_packet RC_CONNECT False (enc_line ?reply), d)"
    using MaybeRequest_fds [of "?c\<lparr>cl_write := ?w\<rparr>" 0 1 RC_CONNECT "enc_line ?words" ?reply strerr default_resolver] held
    by (auto simp: Client_fds_def)
  then have "Connect strerr default_resolver ''TEST'' ''IDENT'' None None ?c = Inr (SetRequest 0 (Packet_int PC_CONNECT 0), d)"
    unfolding call reply_hello_test .
  moreover have "GetInteger (SetRequest 0 (Packet_int PC_CONNECT 0)) = Inr 0"
    by (simp add: GetInteger_def Packet_int_def SetRequest_def)
  moreover have "to_string (unat (GetCode (SetRequest 0 (Packet_int PC_CONNECT 0)))) = ''1''" "to_string (unat (0 :: 64 word)) = ''0''"
    by code_simp+
  ultimately show ?thesis
    unfolding connect_main_def by (simp only: bind_res_simps prod.case) simp
qed

end
