(* ===== verification/Spec2Isabelle.thy ===== *)
theory Spec2Isabelle
  imports LinkProperties PacketTypes NetworkProperties Fatal TestPrograms
begin

text \<open>
  A verification library for libcody, the C++ library by which a compiler (the client) asks
  a build system (the server) for the compiled module interfaces (CMIs) of C++20 modules.

  \<^bold>\<open>The program.\<close> Both sides exchange blocks of lines of words. \<open>Detail::MessageBuffer\<close>
  (\<open>src/buffer.cc\<close>) builds blocks with quoting, moves them with \<open>read(2)\<close> and \<open>write(2)\<close>,
  and lexes them. \<open>Client\<close> (\<open>src/client.cc\<close>) puts one line per request, exchanges the block
  with a server, either directly by swapping buffers or over descriptors, and turns each
  response line into a \<open>Packet\<close> (\<open>src/packet.cc\<close>); a corked client queues requests and
  sends them as one block. \<open>Server\<close> (\<open>src/server.cc\<close>) lexes the lines of a block, guards
  them by the handshake, and calls the virtual functions of a \<open>Resolver\<close>, which answer by
  calling back the server's responses; \<open>src/resolver.cc\<close> is the default resolver.
  \<open>src/netclient.cc\<close> and \<open>src/netserver.cc\<close> open and listen on sockets,
  \<open>src/fatal.cc\<close> reports failed assertions.

  \<^bold>\<open>The theories\<close>, each importing those before it that it uses:
  \<^item> \<open>CodyPrelude\<close>: results that may be a fault (an access out of range, a failed assertion, a
    read of the wrong union member, or no return), bytes, checked reads.
  \<^item> \<open>BufferWrite\<close>: the record \<open>MessageBuffer\<close> and its writing operations; the reference
    encoding of words, lines and blocks; the locale \<open>line_sink\<close>, interpreted on the buffer.
  \<^item> \<open>BufferLex\<close>: \<open>Lex\<close> and \<open>LexedLine\<close> with indices and checked reads. \<open>LexSpec\<close>: a reference
    lexer on lists and the proof that the code's loops implement it. \<open>LexCorrect\<close>: the
    results for \<open>Lex\<close> and \<open>LexedLine\<close>, and the signedness of \<open>char\<close>. \<open>RoundTrip\<close>: what is
    written is what is lexed.
  \<^item> \<open>BufferIO\<close>: \<open>Write\<close>, \<open>Read\<close> and the retry loops around them, over any answers of the
    system. \<open>Numbers\<close>: \<open>strtoul\<close>, \<open>ParseUnsigned\<close>, \<open>std::to_string\<close>.
  \<^item> \<open>Packets\<close>: the enumerations of \<open>src/cody.hh\<close> and the variant \<open>Packet\<close>.
  \<^item> \<open>ServerCore\<close>: the server's state, responses and request decoders. \<open>ServerProcess\<close>:
    \<open>ProcessRequests\<close> and \<open>DirectProcess\<close>, and the abstract server (\<open>decode\<close>, \<open>serve\<close>).
    \<open>ServerContract\<close>: the locale \<open>resolver_contract\<close>, what a resolver owes the server, and
    in it the refinement of the abstract server; \<open>direct_contract\<close> extends it.
  \<^item> \<open>ResolverDefault\<close>: the default resolver and its name mapping. \<open>ResolverServer\<close>: the
    locale \<open>cmi_naming\<close>, a mapping of names a derived class may put in its place, which gives
    the contract, and its interpretation on the code's mapping with any suffix.
  \<^item> \<open>ClientCore\<close>: the client. \<open>ClientSpec\<close>: a response line as a packet, and exchanges,
    direct and over descriptors, of lines of any text. \<open>ClientCalls\<close>: the seven requests as
    values (\<open>call\<close>), the line of each (\<open>call_line\<close>) and their sequences. The arguments of an
    \<open>InvokeSubProcess\<close> go out unquoted, so such a request need not be one line; \<open>one_line\<close> says
    when it is, and is a hypothesis of what is said of sequences of requests.
  \<^item> \<open>PacketTypes\<close>: the payloads the packet codes document, for every response and request.
  \<^item> \<open>ServerConn\<close>: one connection over time, as the loop around \<open>Read\<close>, \<open>ProcessRequests\<close>
    and \<open>Write\<close> that the servers of the tests run: a step relation whose labels are the
    system's answers, with the blocks of a byte stream as its specification. It has no step
    for a read or a write that fails for good; those are in \<open>LinkFaults\<close>.
  \<^item> \<open>Link\<close>: client and server joined by two byte channels, with the loops of
    \<open>CommunicateWithServer\<close> taken apart so that they interleave with the server's steps.
    \<open>LinkSpec\<close>: the invariant of an exchange, progress and the bound on its steps.
    \<open>LinkCalls\<close>: what the client makes of a complete run, single requests, batches, sessions.
    \<open>LinkFaults\<close>: the same link when calls of either side fail for good or the stream ends.
  \<^item> \<open>Network\<close>: the six socket helpers over \<open>errno\<close>, the system's world and the log of the
    calls made. \<open>NetworkSpec\<close>: the descriptors and address lists such a log holds,
    and the locale \<open>attempt\<close>, the walk over an address list that connecting and binding
    share (two loops in the code, one definition with the call as a parameter), interpreted on both.
  \<^item> \<open>Fatal\<close>: \<open>HCF\<close>, \<open>AssertFailed\<close>, \<open>Unreachable\<close> and the messages they print.
  \<^item> \<open>TestPrograms\<close>: the programs of \<open>src/tests\<close> as compositions of the operations, and the runs
    their comments record, which the model reproduces: a check of the model against the tests.
  \<^item> \<open>BufferProperties\<close>, \<open>ServerProperties\<close>, \<open>ClientProperties\<close>, \<open>ConnectionProperties\<close>,
    \<open>LinkProperties\<close>, \<open>NetworkProperties\<close> and this theory: the properties, those of single components first,
    those of client and server together here.

  \<^bold>\<open>How the model follows the code.\<close> A member function is a function from the state record
  to the new record; members that can be undefined or abort return \<open>res\<close>. A virtual
  function table is the record \<open>Resolver_vt\<close>, the resolver pointer a value of any type with
  the resolver's own state, so a hand-over to another resolver is a change of that value.
  The loop of \<open>ProcessRequests\<close> is a \<open>partial_function\<close>, since a resolver may do anything to
  the server; that it returns is part of the refinement proved from the contract.
  The system is a parameter: a list of answers to successive calls, which the retry loops
  consume; a list that is used up stands for waiting without end (\<open>Diverges\<close>). No fuel is
  used elsewhere. The system the socket helpers call is a record of functions over any
  world of its own, which may answer anything; every call appends an event to a log.
  \<open>strerror\<close> is a parameter without hypotheses. Plain \<open>char\<close> is signed as on
  x86-64, and the lexer is proved to be the same with an unsigned one; \<open>unsigned\<close> is 32
  bits and \<open>unsigned long\<close> 64.

  \<^bold>\<open>What is shown.\<close> Words of ASCII text survive writing, transport in any pieces and lexing;
  the lexer implements its reference, which is the language the code accepts and smaller than
  that of the README (\<open>lex_line_unquoted\<close>), and never faults on received blocks; the server gives
  one reply per line, in order, for every resolver that keeps the contract, and returns;
  nothing is served before the handshake; CMI names stay inside the repository and are
  distinct; the client decodes the replies in order, corking changes nothing else, and no
  peer can make it fault; for every block a peer may send, the packets are a function of its
  lines. What the server does with any text in its buffer, and the default resolver with any
  handshake, is given in full. Several properties pin down departures: the read before the
  buffer's beginning for an empty first line, the rejection of bytes from 128 up, unquoted
  arguments of \<open>InvokeSubProcess\<close>, a late reply that is taken for the next one. Every packet a client returns has the payload its code
  documents. Over a connection the server has, at every moment and for every way the system
  cuts the stream, written a prefix of the answers to the blocks received so far; it writes
  all of them when bytes keep crossing the connection, and the loop over the lines of a block
  returns. Joined to a client by two byte channels, in every interleaving at most
  \<open>2 (q + a) + 5\<close> steps get anything done for a request of \<open>q\<close> and a reply of \<open>a\<close>
  characters, one of them is possible until the exchange returns, and it returns what a
  direct connection does, for a batch and for whole sessions. If the connection breaks at any
  moment, the server has served the whole batch or nothing of it, and the client gets all its
  packets or one error packet. The socket helpers release
  every descriptor and every address list they do not return, with one exception that is
  proved as well: \<open>ListenInet6\<close> frees its list twice when listening fails. Addresses are
  tried in the order of the list until one accepts, for connecting and for binding, only with
  the port asked for, from 0 to 65535; names of local sockets are used as given when they fit and are not empty, and an
  assertion that fails prints its place and aborts.

  The relations \<open>conn_step\<close>, \<open>link_step\<close> and \<open>fault_step\<close> model no lines of their own: they put
  the operations together with the answers of the system, and \<open>LinkSpec\<close> and \<open>LinkFaults\<close> prove
  that a client taken through them computes what the code's loops compute on these answers.

  \<^bold>\<open>What is not modelled.\<close> The Windows variant of the path tests and of the socket headers,
  the test \<open>pivot-1.cc\<close>, build files. The capacity of the vectors is modelled only where \<open>Read\<close>
  computes its request and \<open>Append\<close> its reservation. Strings and vectors that have been
  moved from are empty, as the library leaves them; a move of an object to itself is
  left out. On a link that breaks, bytes that never arrive stay in their channel, and a server
  that meets an error takes no more steps; the connection is not used again, except in the
  property on late replies. A client holds the server of a direct connection by value,
  where the code keeps a pointer, so a client that has been moved from does not share it.
  The numbers of address families and errors are those of Linux, and a failing
  \<open>getaddrinfo\<close> leaves the caller's list untouched, a null pointer.
\<close>

section \<open>Client and server over a direct connection\<close>

text \<open>C1: a corked batch: for every resolver that keeps its contract, requests made between
  \<open>Cork\<close> and \<open>Uncork\<close>, of any of the seven kinds, each return a PC_CORKED packet without any
  exchange, and \<open>Uncork\<close> returns exactly one packet for each, in order: the decoding of the
  abstract server's reply to that request. The exchange returns, and both sides are ready
  for the next one. Each request has to be one line, which only an \<open>InvokeSubProcess\<close> can fail
  to be: its arguments are not quoted, so they must not have a newline, and the last must not
  end in a semicolon.\<close>

theorem uncork_one_packet_per_request:
  assumes "direct_contract vt conn req err wait" and "linked s c" and "idle c" and "qs \<noteq> []" and "list_all one_line qs"
    and "serve_all (serve conn req err strerr) (resolver s, is_connected s) (call_lines qs) = (wss, r', c')"
  shows "\<exists>c1 s' d. make_calls strerr vt qs (Cork c) = Inr (replicate (length qs) (Packet_int PC_CORKED 0), c1)
    \<and> Uncork strerr vt c1 = Inr (packets wss (map call_code qs), d)
    \<and> length (packets wss (map call_code qs)) = length qs
    \<and> linked s' d \<and> idle d \<and> resolver s' = wait r' \<and> is_connected s' = c'"
  using direct_contract.corked_calls_linked [OF assms(1-3,5,4), of strerr wss r' c'] assms(6)
  by (fastforce simp: packets_def)

theorem uncork_one_packet_per_request_witness:
  "\<exists>c1 s' d. make_calls (\<lambda>_. []) default_resolver [CallConnect ''gcc'' [], CallRepo, CallInvoke [''cc'', ''-o=x'']] (Cork example_client)
      = Inr ([Packet_int PC_CORKED 0, Packet_int PC_CORKED 0, Packet_int PC_CORKED 0], c1)
    \<and> Uncork (\<lambda>_. []) default_resolver c1
      = Inr ([reply_packet RC_CONNECT False (enc_line [''HELLO'', to_string 1, ''default'']),
              reply_packet RC_MODULE_REPO False (enc_line [''PATHNAME'', REPO_DIR]),
              reply_packet RC_INVOKE False (enc_line [''ERROR'', ''unimplemented''])], d)
    \<and> linked s' d \<and> idle d \<and> resolver s' = undefined \<and> is_connected s'"
proof -
  have "list_all one_line [CallConnect ''gcc'' [], CallRepo, CallInvoke [''cc'', ''-o=x'']]" by code_simp
  then show ?thesis
    using uncork_one_packet_per_request [OF dflt.direct_contract_axioms example_client_linked _ _ example_served [of "\<lambda>_. []"]]
    by (simp add: packets_def)
qed

text \<open>C6: corking is transparent: for every resolver that keeps its contract and whose
  \<open>WaitUntilReady\<close> leaves it as it is, making requests of any of the seven kinds one by one
  gives the same packets, and leaves the resolver and the handshake state of both sides the
  same, as making them corked and uncorking. Each request has to be one line, as an
  \<open>InvokeSubProcess\<close> with a newline in an argument or a semicolon at its end is not.\<close>

theorem corking_transparent:
  assumes "direct_contract vt conn req err (\<lambda>r. r)" and "linked s c" and "idle c" and "qs \<noteq> []" and "list_all one_line qs"
  shows "\<exists>ps d1 s1 c1 d2 s2. make_calls strerr vt qs c = Inr (ps, d1) \<and> linked s1 d1
    \<and> make_calls strerr vt qs (Cork c) = Inr (replicate (length qs) (Packet_int PC_CORKED 0), c1)
    \<and> Uncork strerr vt c1 = Inr (ps, d2) \<and> linked s2 d2
    \<and> resolver s1 = resolver s2 \<and> is_connected s1 = is_connected s2 \<and> cl_connected d1 = cl_connected d2
    \<and> idle d1 \<and> idle d2"
proof -
  obtain wss r' c' where "serve_all (serve conn req err strerr) (resolver s, is_connected s) (call_lines qs) = (wss, r', c')"
    by (metis prod_cases3)
  from direct_contract.make_calls_linked [OF assms(1) refl assms(2,3,5) this]
    direct_contract.corked_calls_linked [OF assms(1,2,3,5,4) this] show ?thesis by metis
qed

theorem corking_transparent_witness:
  "\<exists>ps d1 s1 c1 d2 s2. make_calls (\<lambda>_. []) default_resolver [CallRepo, CallConnect ''a b'' [], CallInvoke [''cc'', ''a b'']] example_client = Inr (ps, d1)
    \<and> linked s1 d1
    \<and> make_calls (\<lambda>_. []) default_resolver [CallRepo, CallConnect ''a b'' [], CallInvoke [''cc'', ''a b'']] (Cork example_client)
      = Inr (replicate (length [CallRepo, CallConnect ''a b'' [], CallInvoke [''cc'', ''a b'']]) (Packet_int PC_CORKED 0), c1)
    \<and> Uncork (\<lambda>_. []) default_resolver c1 = Inr (ps, d2) \<and> linked s2 d2
    \<and> resolver s1 = resolver s2 \<and> is_connected s1 = is_connected s2 \<and> cl_connected d1 = cl_connected d2
    \<and> idle d1 \<and> idle d2"
proof -
  have "list_all one_line [CallRepo, CallConnect ''a b'' [], CallInvoke [''cc'', ''a b'']]" by code_simp
  then show ?thesis by (rule corking_transparent [OF dflt.direct_contract_axioms example_client_linked list.distinct(2)])
qed

text \<open>C9: a whole conversation with the default resolver: after a handshake with any ASCII
  agent and ident, the repository is \<open>cmi.cache\<close> and importing any module or header unit
  with a non-empty ASCII name gives the name \<open>GetCMIName\<close> computes; each packet carries the
  code of its request. The handshake's packet carries 0, its flags, not the version.\<close>

theorem default_conversation:
  assumes "linked s c" and "idle c" and "\<not> is_connected s" and "ascii_word agent" and "ascii_word ident"
    and "n \<noteq> []" and "ascii_word n" and "f \<noteq> - 1"
  shows "\<exists>cmi s' d. GetCMIName GetCMISuffix n = Inr cmi
    \<and> make_calls strerr default_resolver [CallConnect agent ident, CallRepo, CallImport n f] c
      = Inr ([SetRequest 0 (Packet_int PC_CONNECT 0), SetRequest 1 (Packet_str PC_PATHNAME REPO_DIR),
              SetRequest 3 (Packet_str PC_PATHNAME cmi)], d)
    \<and> linked s' d \<and> idle d \<and> is_connected s' \<and> cl_connected d \<and> resolver s' = resolver s"
proof -
  let ?qs = "[CallConnect agent ident, CallRepo, CallImport n f]"
  let ?wss = "[[''HELLO'', to_string 1, ''default''], [''PATHNAME'', REPO_DIR], [''PATHNAME'', cmi_of n]]"
  have ascii: "list_all ascii_word (call_words (CallConnect agent ident))" "list_all ascii_word (call_words CallRepo)"
    "list_all ascii_word (call_words (CallImport n f))"
    using assms by (auto simp: named_words_def ascii_def uchar_def)
  have served: "serve_all (default_serve strerr) (resolver s, is_connected s) (call_lines ?qs) = (?wss, resolver s, True)"
    using assms(3) ascii decode_call_words [OF assms(6,8)]
    by (simp del: call_words.simps add: default_conn_def default_req_def)
  have packets: "packets ?wss (map call_code ?qs) = [SetRequest 0 (Packet_int PC_CONNECT 0),
      SetRequest 1 (Packet_str PC_PATHNAME REPO_DIR), SetRequest 3 (Packet_str PC_PATHNAME (cmi_of n))]"
    using reply_hello reply_pathname [of REPO_DIR RC_MODULE_REPO] ascii_cmi_of [OF assms(6,7)]
      reply_pathname [of "cmi_of n" RC_MODULE_IMPORT]
    by (simp add: packets_def rc_word_def)
  show ?thesis
    using dflt.make_calls_linked [OF refl assms(1,2) _ served] cmi_of_eq [OF assms(6)] unfolding packets by auto
qed

theorem default_conversation_witness:
  "\<exists>cmi s' d. GetCMIName GetCMISuffix ''./a b.h'' = Inr cmi
    \<and> make_calls (\<lambda>_. []) default_resolver [CallConnect ''gcc'' [], CallRepo, CallImport ''./a b.h'' 1] example_client
      = Inr ([SetRequest 0 (Packet_int PC_CONNECT 0), SetRequest 1 (Packet_str PC_PATHNAME REPO_DIR),
              SetRequest 3 (Packet_str PC_PATHNAME cmi)], d)
    \<and> linked s' d \<and> idle d \<and> is_connected s' \<and> cl_connected d
    \<and> resolver s' = resolver (example_server empty_buffer undefined)"
  by (rule default_conversation [OF example_client_linked]) (simp_all add: ascii_def uchar_def)

section \<open>Client and server over descriptors\<close>

text \<open>Over descriptors a request gets the same packet as over a direct connection: if the
  system takes the client's block, a server that keeps its contract processes exactly those
  bytes, and its reply block comes back cut into any pieces, then the packet is the
  decoding of the abstract server's reply, and what was sent is the request's line.\<close>

theorem descriptors_as_direct:
  assumes "resolver_contract vt conn req err" and "channel c = Fds from_fd to_fd" and "idle c" and "one_line q"
    and "takes_all (length (call_line q) + 1) (kernel_writes c)"
    and "sv_read s = \<lparr>buffer = call_line q @ [NL], lastBol = 0\<rparr>" and "buffer (sv_write s) = []"
    and "ProcessRequests strerr vt s = Inr s'"
    and "delivers (buffer (PrepareToWrite (sv_write s'))) (kernel_reads c)"
    and "serve conn req err strerr (resolver s, is_connected s) (call_line q) = (vs, r', c')"
  shows "\<exists>d. make_call strerr vt' q c = Inr (reply_packet (call_code q) False (enc_line vs), d)
    \<and> kernel_sent d = kernel_sent c @ call_line q @ [NL]
    \<and> resolver s' = r' \<and> is_connected s' = c'"
proof -
  have rem: "left_lines [call_line q] (sv_read s)"
    using assms(6) plain_call_line [OF assms(4)] by (auto simp: left_lines_def text_block_Cons)
  have idle: "holds_block [] (sv_write s)" using assms(7) by (simp add: holds_block_def)
  have lines: "lines_of (sv_read s) = [call_line q]" using left_lines_of [OF rem] by simp
  obtain w where w: "ProcessRequests strerr vt s = Inr (s\<lparr>direction := PROCESSING, sv_read := at_end (sv_read s),
      sv_write := w, resolver := r', is_connected := c'\<rparr>)" "holds_block ([] @ [vs]) w"
    using server_refines [OF assms(1) left_lines_readable [OF rem] first_line_fine [OF rem] idle, of strerr "[vs]" r' c'] assms(10)
    by (auto simp: lines)
  then have s': "sv_write s' = w" "resolver s' = r'" "is_connected s' = c'" using assms(8) by auto
  have vs: "vs \<noteq> []" "buffer (PrepareToWrite w) = enc_line vs @ [NL]"
    using w(2) by (auto simp: holds_block_def PrepareToWrite_def enc_block_Cons)
  have "buffer (put_call q (cl_write c)) = call_line q" using assms(3) by (intro put_call_first) (simp add: idle_def)
  then show ?thesis
    using MaybeRequest_fds [of "c\<lparr>cl_write := put_call q (cl_write c)\<rparr>" from_fd to_fd "call_code q" "call_line q" vs strerr vt']
      assms(2,3,5,9) vs s' unfolding make_call_puts by (auto simp: idle_def)
qed

lemma repo_lines:
  "call_line CallRepo = ''MODULE-REPO''" "enc_line [''PATHNAME'', REPO_DIR] = ''PATHNAME cmi.cache''"
  by (simp_all add: enc_line_def enc_word_def safe_word_def needs_quote_def uchar_def REPO_DIR_def)

theorem descriptors_as_direct_witness:
  "\<exists>d. make_call (\<lambda>_. []) default_resolver CallRepo
        (Client_fds 3 4 [Wrote 5, WriteErr EINTR, Wrote 7] [Got ''PATH'', ReadErr EAGAIN, Got (''NAME cmi.cache'' @ [NL])])
      = Inr (SetRequest 1 (Packet_str PC_PATHNAME REPO_DIR), d)
    \<and> kernel_sent d = ''MODULE-REPO'' @ [NL]"
proof -
  let ?s = "(example_server \<lparr>buffer = ''MODULE-REPO'' @ [NL], lastBol = 0\<rparr> undefined)\<lparr>is_connected := True\<rparr>"
  have serve: "default_serve (\<lambda>_. []) (resolver ?s, is_connected ?s) ''MODULE-REPO'' = ([''PATHNAME'', REPO_DIR], undefined, True)"
    by (simp add: repo_line decode_repo_line default_req_def)
  then obtain w where w: "ProcessRequests (\<lambda>_. []) default_resolver ?s = Inr (?s\<lparr>direction := PROCESSING, sv_read := at_end (sv_read ?s),
      sv_write := w, resolver := undefined, is_connected := True\<rparr>)" "holds_block ([] @ [[''PATHNAME'', REPO_DIR]]) w"
    using server_refines [OF dflt.resolver_contract_axioms, of ?s "[]" "\<lambda>_. []" "[[''PATHNAME'', REPO_DIR]]" undefined True]
    by (auto simp: readable_def next_line_def lines_of_def)
  have "buffer (PrepareToWrite w) = ''PATHNAME cmi.cache'' @ [NL]"
    using w(2) repo_lines(2) by (simp add: holds_block_def PrepareToWrite_def enc_block_Cons)
  then show ?thesis
    using descriptors_as_direct [OF dflt.resolver_contract_axioms _ _ _ _ _ _ w(1), where q = CallRepo and vs = "[''PATHNAME'', REPO_DIR]"
        and r' = undefined and c' = True and vt' = default_resolver and from_fd = 3 and to_fd = 4
        and c = "Client_fds 3 4 [Wrote 5, WriteErr EINTR, Wrote 7] [Got ''PATH'', ReadErr EAGAIN, Got (''NAME cmi.cache'' @ [NL])]"]
      serve reply_pathname [of REPO_DIR RC_MODULE_REPO]
    by (simp add: repo_lines Client_fds_def idle_def empty_buffer_def rc_word_def example_server_def Server_new_def
        Server_PrepareToRead_def PrepareToRead_def del: call_words.simps call_line.simps serve.simps)
qed

end
